theory Spec2Isabelle
  imports Complex_Main "HOL-Library.Log_Nat"
begin

section \<open>Timestamp watermarking of dashcam videos: the two App components\<close>

text \<open>
  The repository holds two versions of one React component: \<^verbatim>\<open>src/App.tsx\<close> and a
  second file that differs in the encoder negotiation, in the watermark styling and in
  the finalization. Functions that differ take the version as a parameter; functions
  that are the same text in both files are modelled once.
\<close>

datatype variant = App_tsx | Part_000

subsection \<open>JavaScript string operations used by the parser\<close>

text \<open>
  Strings are \<^typ>\<open>string\<close>. The parser only looks for the ASCII characters
  \<^verbatim>\<open>.\<close>, \<^verbatim>\<open>_\<close> and \<^verbatim>\<open>-\<close>, so the encoding of other characters does not matter.
\<close>

fun last_index :: "char \<Rightarrow> string \<Rightarrow> int \<Rightarrow> int \<Rightarrow> int" where
  "last_index c [] i found = found"
| "last_index c (x # xs) i found = last_index c xs (i + 1) (if x = c then i else found)"

definition lastIndexOf :: "string \<Rightarrow> char \<Rightarrow> int" where
  \<comment> \<open>\<^verbatim>\<open>s.lastIndexOf(c)\<close>: the index of the last occurrence, -1 when there is none\<close>
  "lastIndexOf s c = last_index c s 0 (- 1)"

definition substring :: "string \<Rightarrow> int \<Rightarrow> int \<Rightarrow> string" where
  \<comment> \<open>\<^verbatim>\<open>s.substring(a, b)\<close>: both ends are clamped to the string, and swapped when \<open>a > b\<close>\<close>
  "substring s a b =
     (let n = int (length s);
          a' = max 0 (min a n);
          b' = max 0 (min b n);
          lo = min a' b';
          hi = max a' b'
      in take (nat (hi - lo)) (drop (nat lo) s))"

fun split_str :: "string \<Rightarrow> char \<Rightarrow> string list" where
  \<comment> \<open>\<^verbatim>\<open>s.split(c)\<close> for a one-character separator; the empty string gives one empty part\<close>
  "split_str [] c = [[]]"
| "split_str (x # xs) c =
     (if x = c then [] # split_str xs c
      else (case split_str xs c of [] \<Rightarrow> [[x]] | p # ps \<Rightarrow> (x # p) # ps))"

subsection \<open>The runtime's dates\<close>

text \<open>
  The host environment: the wall clock read by \<^verbatim>\<open>new Date()\<close>, the local time zone
  adjustment of ECMAScript (\<open>localTZA t True\<close> is the offset in milliseconds in effect at
  the UTC time \<open>t\<close>, \<open>localTZA t False\<close> the offset in effect at the local time \<open>t\<close>),
  the time value \<^verbatim>\<open>new Date(s).getTime()\<close> that the engine reads from a string (\<open>None\<close>
  for NaN; ECMAScript leaves the reading of strings outside its own interchange format to
  the engine, so it is taken as the engine gives it), the width the canvas measures for a
  text at a font size in pixels, and the recorder's answer to
  \<^verbatim>\<open>MediaRecorder.isTypeSupported\<close>.
\<close>

record env =
  now :: int
  localTZA :: "int \<Rightarrow> bool \<Rightarrow> int"
  Date_parse :: "string \<Rightarrow> int option"
  measureText :: "int \<Rightarrow> string \<Rightarrow> rat"
  isTypeSupported :: "string \<Rightarrow> bool"

definition msPerDay :: int where
  "msPerDay = 86400000"

definition MakeDay :: "int \<Rightarrow> int \<Rightarrow> int \<Rightarrow> int" where
  \<comment> \<open>day number (days since 1970-01-01) of year \<open>y\<close>, month \<open>m\<close> in 1..12, day \<open>d\<close>
      of the proleptic Gregorian calendar\<close>
  "MakeDay y m d =
     (let y' = (if m \<le> 2 then y - 1 else y);
          era = y' div 400;
          yoe = y' - era * 400;
          doy = (153 * (if m > 2 then m - 3 else m + 9) + 2) div 5 + d - 1;
          doe = yoe * 365 + yoe div 4 - yoe div 100 + doy
      in era * 146097 + doe - 719468)"

definition MakeTime :: "int \<Rightarrow> int \<Rightarrow> int \<Rightarrow> int \<Rightarrow> int" where
  "MakeTime h mi s ms = h * 3600000 + mi * 60000 + s * 1000 + ms"

definition MakeDate :: "int \<Rightarrow> int \<Rightarrow> int" where
  "MakeDate day time = day * msPerDay + time"

definition UTC_of_local :: "env \<Rightarrow> int \<Rightarrow> int" where
  "UTC_of_local e t = t - localTZA e t False"

definition LocalTime :: "env \<Rightarrow> int \<Rightarrow> int" where
  "LocalTime e t = t + localTZA e t True"

definition local_instant :: "env \<Rightarrow> int \<Rightarrow> int \<Rightarrow> int \<Rightarrow> int \<Rightarrow> int \<Rightarrow> int \<Rightarrow> int" where
  \<comment> \<open>the time value of the local date and time \<open>y-mo-d h:mi:s\<close>\<close>
  "local_instant e y mo d h mi s =
     UTC_of_local e (MakeDate (MakeDay y mo d) (MakeTime h mi s 0))"

definition is_digit :: "char \<Rightarrow> bool" where
  "is_digit c = (48 \<le> (of_char c :: nat) \<and> (of_char c :: nat) \<le> 57)"

definition digit_val :: "char \<Rightarrow> int" where
  "digit_val c = int (of_char c) - 48"

definition num_val :: "string \<Rightarrow> int" where
  \<comment> \<open>the value of a decimal numeral\<close>
  "num_val s = foldl (\<lambda>a c. 10 * a + digit_val c) 0 s"

definition is_field :: "nat \<Rightarrow> string \<Rightarrow> bool" where
  \<comment> \<open>a field of exactly \<open>n\<close> decimal digits\<close>
  "is_field n s = (length s = n \<and> list_all is_digit s)"

definition leap_year :: "int \<Rightarrow> bool" where
  "leap_year y = (y mod 4 = 0 \<and> (y mod 100 \<noteq> 0 \<or> y mod 400 = 0))"

definition days_in_month :: "int \<Rightarrow> int \<Rightarrow> int" where
  "days_in_month y m =
     (if m = 2 then (if leap_year y then 29 else 28)
      else if m = 4 \<or> m = 6 \<or> m = 9 \<or> m = 11 then 30 else 31)"

definition valid_date :: "int \<Rightarrow> int \<Rightarrow> int \<Rightarrow> bool" where
  "valid_date y m d = (1 \<le> m \<and> m \<le> 12 \<and> 1 \<le> d \<and> d \<le> days_in_month y m)"

definition valid_time :: "int \<Rightarrow> int \<Rightarrow> int \<Rightarrow> bool" where
  "valid_time h mi s = (0 \<le> h \<and> h \<le> 23 \<and> 0 \<le> mi \<and> mi \<le> 59 \<and> 0 \<le> s \<and> s \<le> 59)"

definition canonical_time :: "env \<Rightarrow> string \<Rightarrow> int option" where
  \<comment> \<open>the local date and time written by a string of the shape \<^verbatim>\<open>YYYY-MM-DD HH:MM:SS\<close>
      with a year from 0100 on and a date and a time that exist, as a time value; \<open>None\<close>
      on every other string, about which nothing is said (an engine may read a year
      below 100 as a year of the 20th or 21st century, roll a 30th of February over into
      March, or refuse)\<close>
  "canonical_time e s =
     (case split_str s (CHR '' '') of
        [date, time] \<Rightarrow>
          (case (split_str date (CHR ''-''), split_str time (CHR '':'')) of
             ([y, mo, d], [h, mi, se]) \<Rightarrow>
               if is_field 4 y \<and> is_field 2 mo \<and> is_field 2 d
                  \<and> is_field 2 h \<and> is_field 2 mi \<and> is_field 2 se
                  \<and> 100 \<le> num_val y
                  \<and> valid_date (num_val y) (num_val mo) (num_val d)
                  \<and> valid_time (num_val h) (num_val mi) (num_val se)
               then Some (local_instant e (num_val y) (num_val mo) (num_val d)
                            (num_val h) (num_val mi) (num_val se))
               else None
           | _ \<Rightarrow> None)
      | _ \<Rightarrow> None)"

definition reads_local_time :: "env \<Rightarrow> bool" where
  \<comment> \<open>the engine reads every such string as the local date and time it writes\<close>
  "reads_local_time e = (\<forall>s t. canonical_time e s = Some t \<longrightarrow> Date_parse e s = Some t)"

subsection \<open>The filename timestamp parser\<close>

text \<open>
  The three errors thrown inside \<^verbatim>\<open>parseTimeFromFilename\<close>, in the order of the source:
  the stripped name has fewer than two parts, the time part has fewer than three fields,
  the engine reads no date from the assembled string.
\<close>

datatype parse_error = Bad_filename_format | Bad_time_format | Unparsable_time

text \<open>The messages handed to \<^verbatim>\<open>displayError\<close>, one constructor for each literal of the source.\<close>

datatype message =
    No_message
  | No_recorder_support
  | Time_parse_error parse_error
  | Not_a_video
  | Play_failed
  | No_data_collected
  | Create_video_failed
  | Finish_failed
  | Nothing_to_download

definition strip_ext :: "string \<Rightarrow> string" where
  \<comment> \<open>\<^verbatim>\<open>filename.substring(0, filename.lastIndexOf("."))\<close>\<close>
  "strip_ext filename = substring filename 0 (lastIndexOf filename (CHR ''.''))"

definition date_string :: "string \<Rightarrow> string list \<Rightarrow> string" where
  \<comment> \<open>the template string built from the date part and the first three time fields\<close>
  "date_string datePart timeParts =
     datePart @ '' '' @ timeParts ! 0 @ '':'' @ timeParts ! 1 @ '':'' @ timeParts ! 2"

definition parse_try :: "env \<Rightarrow> string \<Rightarrow> parse_error + int" where
  \<comment> \<open>the \<^verbatim>\<open>try\<close> block of \<^verbatim>\<open>parseTimeFromFilename\<close>; \<open>Inl\<close> is a thrown error\<close>
  "parse_try e filename =
     (let filenameWithoutExt = strip_ext filename;
          parts = split_str filenameWithoutExt (CHR ''_'')
      in if length parts < 2 then Inl Bad_filename_format
         else
           let datePart = parts ! 0;
               timeParts = split_str (parts ! 1) (CHR ''-'')
           in if length timeParts < 3 then Inl Bad_time_format
              else
                (case Date_parse e (date_string datePart timeParts) of
                   None \<Rightarrow> Inl Unparsable_time
                 | Some timestamp \<Rightarrow> Inr timestamp))"

definition parseTimeFromFilename :: "env \<Rightarrow> string \<Rightarrow> int \<times> message option" where
  \<comment> \<open>the returned number, and the message passed to \<^verbatim>\<open>displayError\<close> by the
      \<^verbatim>\<open>catch\<close> block, if any\<close>
  "parseTimeFromFilename e filename =
     (case parse_try e filename of
        Inr timestamp \<Rightarrow> (timestamp, None)
      | Inl err \<Rightarrow> (now e, Some (Time_parse_error err)))"

definition malformed :: "env \<Rightarrow> string \<Rightarrow> bool" where
  \<comment> \<open>the three ways a filename can be wrong: fewer than two parts between underscores
      in the stripped name, fewer than three fields between dashes in the time part, a
      date and time string from which the engine reads no date\<close>
  "malformed e filename =
     (let parts = split_str (strip_ext filename) (CHR ''_'')
      in length parts < 2
         \<or> length (split_str (parts ! 1) (CHR ''-'')) < 3
         \<or> Date_parse e (date_string (parts ! 0) (split_str (parts ! 1) (CHR ''-''))) = None)"


subsection \<open>Formatting an instant (the Date constructor and dayjs)\<close>

definition civil_from_days :: "int \<Rightarrow> int \<times> int \<times> int" where
  \<comment> \<open>year, month in 1..12 and day of the month of a day number\<close>
  "civil_from_days z =
     (let z' = z + 719468;
          era = z' div 146097;
          doe = z' - era * 146097;
          yoe = (doe - doe div 1460 + doe div 36524 - doe div 146096) div 365;
          doy = doe - (365 * yoe + yoe div 4 - yoe div 100);
          mp = (5 * doy + 2) div 153;
          d = doy - (153 * mp + 2) div 5 + 1;
          m = (if mp < 10 then mp + 3 else mp - 9)
      in (if m \<le> 2 then yoe + era * 400 + 1 else yoe + era * 400, m, d))"

text \<open>
  JavaScript numbers are IEEE 754 doubles. A finite double is a rational; the result of an
  operation is \<open>None\<close> where it is not finite. Every arithmetic operation gives the exact
  result rounded to the nearest double, a tie to the one with an even significand:
  \<open>binade a\<close> is the exponent of the power of two at or below \<open>a\<close>, the doubles near
  \<open>a\<close> are the multiples of 2 to the power \<open>binade a - 52\<close> (of 2 to the power -1074 in the
  subnormal range), and a result of magnitude 2 to the power 1024 or more is infinite.
\<close>

definition round_even :: "rat \<Rightarrow> int" where
  "round_even x =
     (let f = \<lfloor>x\<rfloor>; r = x - of_int f
      in if r < 1 / 2 then f else if 1 / 2 < r then f + 1 else if even f then f else f + 1)"

definition binade :: "rat \<Rightarrow> int" where
  "binade x =
     (case quotient_of x of
        (p, q) \<Rightarrow> (let d = bitlen p - bitlen q in if 2 powi d \<le> x then d else d - 1))"

definition to_double :: "rat \<Rightarrow> rat option" where
  "to_double x =
     (if x = 0 then Some 0
      else
        (let a = \<bar>x\<bar>;
             u = 2 powi (max (binade a) (- 1022) - 52);
             r = of_int (round_even (a / u)) * u
         in if 2 powi 1024 \<le> r then None else Some (sgn x * r)))"




definition double_sum :: "int \<Rightarrow> rat \<Rightarrow> rat option" where
  \<comment> \<open>\<^verbatim>\<open>videoStartTime + video.currentTime * 1000\<close>: the product is rounded, then the sum\<close>
  "double_sum start pos =
     (case to_double (pos * 1000) of
        None \<Rightarrow> None
      | Some ms \<Rightarrow> to_double (of_int start + ms))"

definition currentProgress :: "rat \<Rightarrow> rat \<Rightarrow> rat option" where
  \<comment> \<open>\<^verbatim>\<open>(video.currentTime / video.duration) * 100\<close>: the quotient is rounded, then the
      product. The code divides only by a duration that is not 0.\<close>
  "currentProgress ct d =
     (case to_double (ct / d) of
        None \<Rightarrow> None
      | Some q \<Rightarrow> to_double (q * 100))"

definition Date_new :: "rat option \<Rightarrow> int option" where
  \<comment> \<open>\<^verbatim>\<open>new Date(v)\<close>: the time value is clipped, that is cut to an integer towards zero,
      and the date is invalid for a value that is not finite or is beyond 8.64e15 ms\<close>
  "Date_new d =
     (case d of
        None \<Rightarrow> None
      | Some v \<Rightarrow>
          if \<bar>v\<bar> > 8640000000000000 then None
          else Some (if 0 \<le> v then \<lfloor>v\<rfloor> else \<lceil>v\<rceil>))"

function dec :: "nat \<Rightarrow> string" where
  "dec n = (if n < 10 then [char_of (48 + n)] else dec (n div 10) @ [char_of (48 + n mod 10)])"
  by pat_completeness auto
termination
  by (relation "measure id") auto

declare dec.simps [simp del]

definition String_of_int :: "int \<Rightarrow> string" where
  "String_of_int i = (if i < 0 then CHR ''-'' # dec (nat (- i)) else dec (nat i))"

definition padStart :: "string \<Rightarrow> nat \<Rightarrow> char \<Rightarrow> string" where
  "padStart s n c = replicate (n - length s) c @ s"

definition dayjs_format :: "env \<Rightarrow> int option \<Rightarrow> string" where
  \<comment> \<open>\<^verbatim>\<open>dayjs(date).format("YYYY-MM-DD HH:mm:ss")\<close>, from the local fields of the date\<close>
  "dayjs_format e date =
     (case date of
        None \<Rightarrow> ''Invalid Date''
      | Some t \<Rightarrow>
          (let lt = LocalTime e t;
               tod = lt mod msPerDay
           in case civil_from_days (lt div msPerDay) of
                (y, m, d) \<Rightarrow>
                  padStart (String_of_int y) 4 (CHR ''0'') @ ''-''
                  @ padStart (String_of_int m) 2 (CHR ''0'') @ ''-''
                  @ padStart (String_of_int d) 2 (CHR ''0'') @ '' ''
                  @ padStart (String_of_int (tod div 3600000)) 2 (CHR ''0'') @ '':''
                  @ padStart (String_of_int (tod mod 3600000 div 60000)) 2 (CHR ''0'') @ '':''
                  @ padStart (String_of_int (tod mod 60000 div 1000)) 2 (CHR ''0'')))"

definition overlay_text :: "env \<Rightarrow> int \<Rightarrow> rat \<Rightarrow> string" where
  \<comment> \<open>the two lines of \<^verbatim>\<open>renderFrames\<close> that compute \<^verbatim>\<open>currentTime\<close>, the text, from
      \<^verbatim>\<open>videoStartTime\<close> and the playback position in seconds\<close>
  "overlay_text e start pos = dayjs_format e (Date_new (double_sum start pos))"

subsection \<open>The component's state\<close>

type_synonym chunk = "nat list"

record blob =
  bytes :: "nat list"
  btype :: string

definition Blob_new :: "chunk list \<Rightarrow> string \<Rightarrow> blob" where
  "Blob_new parts ty = \<lparr>bytes = concat parts, btype = ty\<rparr>"

record mime_support =
  ext :: string
  opt_mimeType :: string
  opt_videoBitsPerSecond :: "nat option"

datatype recorder_state = Inactive | Recording | Rec_paused

text \<open>
  The runtime's MediaRecorder: its state, its \<^verbatim>\<open>mimeType\<close>, and whether \<^verbatim>\<open>stop()\<close> has
  queued the task that delivers the data gathered so far.
\<close>

record recorder =
  rstate :: recorder_state
  rmimeType :: string
  flush_queued :: bool

record video =
  paused :: bool
  ended :: bool
  currentTime :: rat
  duration :: rat
  muted :: bool
  videoWidth :: nat
  videoHeight :: nat

datatype colour = RGBA nat nat nat rat

datatype draw_op =
    ClearRect rat rat rat rat
  | DrawImage rat rat rat rat rat
  | FillRect colour rat rat rat rat
  | FillText colour int string rat rat

record canvas =
  width :: nat
  height :: nat
  has_ctx :: bool
  font :: int
  ops :: "draw_op list"

datatype publisher = By_start | By_tracker | By_finish

datatype action =
    Pause_video
  | Stop_recorder
  | Publish publisher "rat option"
  | Arm_grace nat
  | Concat nat
  | Display message

text \<open>
  The state of one mounted component: the React state variables and refs of the source
  under their own names, then what the source keeps in closures and in the runtime's
  timers (the flag \<^verbatim>\<open>videoCompleted\<close>, the \<^verbatim>\<open>onended\<close> handler, the promise of
  \<^verbatim>\<open>video.play()\<close>, the 200 ms interval, the animation-frame request, the 1000 ms
  timer of \<^verbatim>\<open>finishProcessing\<close>, the 5000 ms timers of \<^verbatim>\<open>displayError\<close>), a clock in
  milliseconds, and a trace of the effects in the order they happen, each with the clock
  at that moment.
\<close>

record app =
  the_file :: "string option"
  videoStartTime :: int
  vidName :: string
  videoURL :: "blob option"
  isProcessing :: bool
  fontSize :: int
  progress :: "rat option"
  error :: message
  showError :: bool
  canvasRef :: "canvas option"
  videoRef :: "video option"
  recorderRef :: "recorder option"
  allChunks :: "chunk list"
  videoCompleted :: bool
  onended :: "mime_support option"
  play_pending :: bool
  updateInterval :: bool
  raf_pending :: bool
  graceTimer :: "(nat \<times> mime_support) option"
  hideTimers :: nat
  clock :: nat
  trace :: "(nat \<times> action) list"

definition emit :: "action \<Rightarrow> app \<Rightarrow> app" where
  "emit a st = st\<lparr>trace := trace st @ [(clock st, a)]\<rparr>"

definition displayError :: "message \<Rightarrow> app \<Rightarrow> app" where
  "displayError m st =
     emit (Display m) (st\<lparr>error := m, showError := True, hideTimers := hideTimers st + 1\<rparr>)"

definition setProgress :: "publisher \<Rightarrow> rat option \<Rightarrow> app \<Rightarrow> app" where
  "setProgress who x st = emit (Publish who x) (st\<lparr>progress := x\<rparr>)"

subsection \<open>Negotiation, upload and metadata\<close>

definition checkMimeTypeSupport :: "variant \<Rightarrow> env \<Rightarrow> mime_support option" where
  \<comment> \<open>the first supported entry in the order of each file; \<open>None\<close> is the \<^verbatim>\<open>null\<close> that
      follows the call of \<^verbatim>\<open>displayError\<close>, which \<open>processVideo\<close> below performs\<close>
  "checkMimeTypeSupport v e =
     (case v of
        App_tsx \<Rightarrow>
          if isTypeSupported e ''video/mp4''
          then Some \<lparr>ext = ''mp4'', opt_mimeType = ''video/mp4'',
                      opt_videoBitsPerSecond = Some 10000000\<rparr>
          else if isTypeSupported e ''video/webm; codecs=vp9''
          then Some \<lparr>ext = ''webm'', opt_mimeType = ''video/webm; codecs=vp9'',
                      opt_videoBitsPerSecond = None\<rparr>
          else if isTypeSupported e ''video/webm''
          then Some \<lparr>ext = ''webm'', opt_mimeType = ''video/webm'',
                      opt_videoBitsPerSecond = None\<rparr>
          else None
      | Part_000 \<Rightarrow>
          if isTypeSupported e ''video/mp4''
          then Some \<lparr>ext = ''mp4'', opt_mimeType = ''video/mp4; codecs=avc1'',
                      opt_videoBitsPerSecond = Some 10000000\<rparr>
          else if isTypeSupported e ''video/webm; codecs=vp9''
          then Some \<lparr>ext = ''webm'', opt_mimeType = ''video/webm; codecs=vp9'',
                      opt_videoBitsPerSecond = Some 10000000\<rparr>
          else if isTypeSupported e ''video/webm; codecs=vp8''
          then Some \<lparr>ext = ''webm'', opt_mimeType = ''video/webm; codecs=vp8'',
                      opt_videoBitsPerSecond = Some 10000000\<rparr>
          else if isTypeSupported e ''video/webm''
          then Some \<lparr>ext = ''webm'', opt_mimeType = ''video/webm'',
                      opt_videoBitsPerSecond = Some 10000000\<rparr>
          else None)"

definition video_load :: "video \<Rightarrow> video" where
  \<comment> \<open>\<^verbatim>\<open>video.load()\<close> on a new source: the element is reset; its size and duration are
      not known before the metadata arrives (a duration of 0 stands for the unknown, falsy
      duration)\<close>
  "video_load vd = vd\<lparr>paused := True, ended := False, currentTime := 0, duration := 0,
                      videoWidth := 0, videoHeight := 0\<rparr>"

definition handleFileUpload :: "env \<Rightarrow> (string \<times> string) option \<Rightarrow> app \<Rightarrow> app" where
  \<comment> \<open>the argument is the name and the media type of \<^verbatim>\<open>files[0]\<close>, or \<open>None\<close> when no
      file was chosen\<close>
  "handleFileUpload e files st =
     (case files of
        None \<Rightarrow> st
      | Some (name, ty) \<Rightarrow>
          if take 6 ty \<noteq> ''video/'' then displayError Not_a_video st
          else
            (case parseTimeFromFilename e name of
               (startTime, warning) \<Rightarrow>
                 (let st1 = (case warning of None \<Rightarrow> st | Some m \<Rightarrow> displayError m st)
                  in st1\<lparr>the_file := Some name,
                         vidName := strip_ext name,
                         videoStartTime := startTime,
                         videoRef := map_option video_load (videoRef st1)\<rparr>)))"

definition Math_round :: "rat \<Rightarrow> int" where
  \<comment> \<open>\<^verbatim>\<open>Math.round\<close>: the nearest integer, a half rounded up\<close>
  "Math_round x = \<lfloor>x + 1 / 2\<rfloor>"

definition newFontSize :: "nat \<Rightarrow> int" where
  \<comment> \<open>\<^verbatim>\<open>Math.max(16, Math.round(canvas.width / 30))\<close>\<close>
  "newFontSize w = max 16 (Math_round (of_nat w / 30))"

definition handleMetadataLoaded :: "app \<Rightarrow> app" where
  \<comment> \<open>the listener exists only when both refs are set\<close>
  "handleMetadataLoaded st =
     (case (videoRef st, canvasRef st) of
        (Some vd, Some cv) \<Rightarrow>
          (let cv1 = cv\<lparr>width := videoWidth vd, height := videoHeight vd\<rparr>;
               fs = newFontSize (width cv1)
           in st\<lparr>fontSize := fs,
                 canvasRef := Some (if has_ctx cv1 then cv1\<lparr>font := fs\<rparr> else cv1)\<rparr>)
      | _ \<Rightarrow> st)"

subsection \<open>The overlay compositor and the frame pump\<close>

definition watermark_ops :: "variant \<Rightarrow> env \<Rightarrow> int \<Rightarrow> canvas \<Rightarrow> string \<Rightarrow> draw_op list" where
  \<comment> \<open>what \<^verbatim>\<open>drawWatermark\<close> draws, in order, on a canvas with a context\<close>
  "watermark_ops v e fs cv text =
     (let textWidth = measureText e fs text;
          padding = of_nat (width cv) / 50;
          textX = of_nat (width cv) - textWidth - padding;
          textY = of_nat (height cv) - padding
      in case v of
           App_tsx \<Rightarrow> [FillText (RGBA 255 255 255 (1 / 2)) fs text textX textY]
         | Part_000 \<Rightarrow>
             [FillRect (RGBA 0 0 0 (1 / 2)) (textX - padding / 2) (textY - of_int fs)
                (textWidth + padding) (of_int fs + padding / 2),
              FillText (RGBA 255 255 255 (9 / 10)) fs text textX textY])"

definition drawWatermark :: "variant \<Rightarrow> env \<Rightarrow> string \<Rightarrow> app \<Rightarrow> app" where
  "drawWatermark v e text st =
     (case (canvasRef st, videoRef st) of
        (Some cv, Some vd) \<Rightarrow>
          if \<not> has_ctx cv then st
          else st\<lparr>canvasRef :=
                    Some (cv\<lparr>font := fontSize st,
                             ops := ops cv @ watermark_ops v e (fontSize st) cv text\<rparr>)\<rparr>
      | _ \<Rightarrow> st)"

definition playing :: "video \<Rightarrow> bool" where
  "playing vd = (\<not> paused vd \<and> \<not> ended vd)"

definition renderFrames :: "variant \<Rightarrow> env \<Rightarrow> app \<Rightarrow> app" where
  \<comment> \<open>one call: the frame and its watermark when the video plays, then the request for
      the next animation frame\<close>
  "renderFrames v e st =
     (case (canvasRef st, videoRef st) of
        (Some cv, Some vd) \<Rightarrow>
          if \<not> has_ctx cv then st
          else if playing vd then
            (let W = of_nat (width cv); H = of_nat (height cv);
                 cv1 = cv\<lparr>ops := ops cv @ [ClearRect 0 0 W H, DrawImage (currentTime vd) 0 0 W H]\<rparr>;
                 text = overlay_text e (videoStartTime st) (currentTime vd);
                 st1 = drawWatermark v e text (st\<lparr>canvasRef := Some cv1\<rparr>)
             in st1\<lparr>raf_pending := True\<rparr>)
          else st
      | _ \<Rightarrow> st)"

subsection \<open>The capture pipeline\<close>

definition recorder_stop :: "recorder \<Rightarrow> recorder" where
  \<comment> \<open>\<^verbatim>\<open>MediaRecorder.stop()\<close> as the MediaStream Recording specification gives it: nothing
      when the state is inactive; otherwise the recorder becomes inactive and a task is
      queued that fires \<^verbatim>\<open>dataavailable\<close> with the data gathered so far\<close>
  "recorder_stop r =
     (if rstate r = Inactive then r else r\<lparr>rstate := Inactive, flush_queued := True\<rparr>)"

definition ondataavailable :: "chunk \<Rightarrow> app \<Rightarrow> app" where
  "ondataavailable d st = (if length d > 0 then st\<lparr>allChunks := allChunks st @ [d]\<rparr> else st)"

definition stop_capture :: "variant \<Rightarrow> app \<Rightarrow> app" where
  \<comment> \<open>the statement of \<^verbatim>\<open>finishProcessing\<close> that stops the recorder: an optional call in
      \<^verbatim>\<open>App.tsx\<close>, a call guarded by the recorder's state in the other file\<close>
  "stop_capture v st =
     (case v of
        App_tsx \<Rightarrow>
          (case recorderRef st of
             None \<Rightarrow> st
           | Some r \<Rightarrow> emit Stop_recorder (st\<lparr>recorderRef := Some (recorder_stop r)\<rparr>))
      | Part_000 \<Rightarrow>
          (case recorderRef st of
             None \<Rightarrow> st
           | Some r \<Rightarrow>
               if rstate r \<noteq> Inactive
               then emit Stop_recorder (st\<lparr>recorderRef := Some (recorder_stop r)\<rparr>)
               else st))"

definition pause_source :: "app \<Rightarrow> app" where
  \<comment> \<open>\<^verbatim>\<open>video?.pause()\<close>, and \<^verbatim>\<open>if (video) video.pause()\<close>\<close>
  "pause_source st =
     (case videoRef st of
        None \<Rightarrow> st
      | Some vd \<Rightarrow> emit Pause_video (st\<lparr>videoRef := Some (vd\<lparr>paused := True\<rparr>)\<rparr>))"

subsection \<open>Starting a run and finishing it\<close>

definition processVideo :: "variant \<Rightarrow> env \<Rightarrow> app \<Rightarrow> app" where
  \<comment> \<open>\<^verbatim>\<open>processVideo\<close> up to its \<^verbatim>\<open>await video.play()\<close>. The recorder's constructor throws
      for a type the runtime does not support, which the \<^verbatim>\<open>catch\<close> reports.\<close>
  "processVideo v e st =
     (if isProcessing st then st
      else
        (case (canvasRef st, videoRef st) of
           (Some cv, Some vd) \<Rightarrow>
             (case checkMimeTypeSupport v e of
                None \<Rightarrow> (displayError No_recorder_support st)\<lparr>isProcessing := False\<rparr>
              | Some mimeType \<Rightarrow>
                  (let st1 = setProgress By_start (Some 0) (st\<lparr>isProcessing := True, allChunks := []\<rparr>)
                   in if \<not> isTypeSupported e (opt_mimeType mimeType)
                      then (displayError Play_failed st1)\<lparr>isProcessing := False\<rparr>
                      else st1\<lparr>recorderRef :=
                                  Some \<lparr>rstate = Recording, rmimeType = opt_mimeType mimeType,
                                        flush_queued = False\<rparr>,
                                videoCompleted := False,
                                onended := Some mimeType,
                                videoRef :=
                                  Some (vd\<lparr>muted := True, currentTime := 0, ended := False,
                                           paused := False\<rparr>),
                                play_pending := True\<rparr>))
         | _ \<Rightarrow> st))"

definition play_resolved :: "variant \<Rightarrow> env \<Rightarrow> app \<Rightarrow> app" where
  \<comment> \<open>the rest of \<^verbatim>\<open>processVideo\<close> after the \<^verbatim>\<open>await\<close>: the interval, the first frame\<close>
  "play_resolved v e st = renderFrames v e (st\<lparr>play_pending := False, updateInterval := True\<rparr>)"

definition play_rejected :: "app \<Rightarrow> app" where
  \<comment> \<open>the \<^verbatim>\<open>catch\<close> of \<^verbatim>\<open>processVideo\<close> when \<^verbatim>\<open>video.play()\<close> fails\<close>
  "play_rejected st =
     (displayError Play_failed
        (st\<lparr>play_pending := False,
             videoRef := map_option (\<lambda>vd. vd\<lparr>paused := True\<rparr>) (videoRef st)\<rparr>))
       \<lparr>isProcessing := False\<rparr>"

definition progress_tick :: "app \<Rightarrow> app" where
  \<comment> \<open>the callback of the 200 ms interval (the video ref was checked before the interval
      was made)\<close>
  "progress_tick st =
     (case videoRef st of
        None \<Rightarrow> st
      | Some vd \<Rightarrow>
          (let st1 = (if duration vd \<noteq> 0
                      then setProgress By_tracker
                             (currentProgress (currentTime vd) (duration vd)) st
                      else st)
           in if videoCompleted st1 then st1\<lparr>updateInterval := False\<rparr> else st1))"

definition grace_ms :: nat where
  "grace_ms = 1000"

definition finishProcessing :: "variant \<Rightarrow> mime_support \<Rightarrow> app \<Rightarrow> app" where
  \<comment> \<open>the synchronous part: the two stops in the order of each file, the progress, the
      timer. Neither \<^verbatim>\<open>pause()\<close> nor \<^verbatim>\<open>stop()\<close> throws here, so the outer \<^verbatim>\<open>catch\<close> has
      no branch.\<close>
  "finishProcessing v mimeType st =
     (let st1 = (case v of
                   App_tsx \<Rightarrow> stop_capture v (pause_source st)
                 | Part_000 \<Rightarrow> pause_source (stop_capture v st));
          st2 = setProgress By_finish (Some 100) st1
      in emit (Arm_grace grace_ms) (st2\<lparr>graceTimer := Some (clock st2 + grace_ms, mimeType)\<rparr>))"

definition blob_type :: "variant \<Rightarrow> mime_support \<Rightarrow> app \<Rightarrow> string" where
  "blob_type v mimeType st =
     (case v of
        App_tsx \<Rightarrow> ''video/'' @ ext mimeType
      | Part_000 \<Rightarrow>
          (case recorderRef st of
             Some r \<Rightarrow> if rmimeType r \<noteq> [] then rmimeType r else ''video/'' @ ext mimeType
           | None \<Rightarrow> ''video/'' @ ext mimeType))"

definition finish_timeout :: "variant \<Rightarrow> mime_support \<Rightarrow> app \<Rightarrow> app" where
  \<comment> \<open>the callback of the 1000 ms timer: only the second file looks at the number of
      chunks before it builds the blob\<close>
  "finish_timeout v mimeType st =
     (if v = Part_000 \<and> length (allChunks st) = 0
      then (displayError No_data_collected st)\<lparr>isProcessing := False\<rparr>
      else
        (emit (Concat (length (allChunks st)))
           (st\<lparr>videoURL := Some (Blob_new (allChunks st) (blob_type v mimeType st))\<rparr>))
          \<lparr>isProcessing := False\<rparr>)"

definition video_onended :: "variant \<Rightarrow> mime_support \<Rightarrow> app \<Rightarrow> app" where
  "video_onended v mimeType st = finishProcessing v mimeType (st\<lparr>videoCompleted := True\<rparr>)"

subsection \<open>Runs\<close>

text \<open>
  What the runtime can do to a started component, one event at a time: playback moves
  forward to a position before the end; playback reaches the end (the element is at its
  duration, ended and paused, and \<^verbatim>\<open>onended\<close> runs); the promise of \<^verbatim>\<open>play()\<close> settles;
  the interval, the animation frame, the recorder's time slice, the recorder's last
  delivery after \<^verbatim>\<open>stop()\<close>, the timer of \<^verbatim>\<open>finishProcessing\<close> and a timer of
  \<^verbatim>\<open>displayError\<close> fire; time passes. An event that cannot happen in a state (its timer
  is not armed, its handler is not set) leaves the state as it is.
\<close>

datatype event =
    Advance rat
  | Ended
  | Play_resolved
  | Play_rejected
  | Tick
  | Frame
  | Timeslice chunk
  | Flush chunk
  | Grace
  | Hide
  | Wait nat

fun step :: "variant \<Rightarrow> env \<Rightarrow> app \<Rightarrow> event \<Rightarrow> app" where
  "step v e st (Advance t) =
     (case videoRef st of
        Some vd \<Rightarrow>
          if playing vd \<and> currentTime vd \<le> t \<and> t < duration vd
          then st\<lparr>videoRef := Some (vd\<lparr>currentTime := t\<rparr>)\<rparr> else st
      | None \<Rightarrow> st)"
| "step v e st Ended =
     (case videoRef st of
        Some vd \<Rightarrow>
          if playing vd
          then
            (let st1 = st\<lparr>videoRef := Some (vd\<lparr>currentTime := duration vd, ended := True,
                                                paused := True\<rparr>)\<rparr>
             in case onended st1 of
                  Some mimeType \<Rightarrow> video_onended v mimeType st1
                | None \<Rightarrow> st1)
          else st
      | None \<Rightarrow> st)"
| "step v e st Play_resolved = (if play_pending st then play_resolved v e st else st)"
| "step v e st Play_rejected = (if play_pending st then play_rejected st else st)"
| "step v e st Tick = (if updateInterval st then progress_tick st else st)"
| "step v e st Frame =
     (if raf_pending st then renderFrames v e (st\<lparr>raf_pending := False\<rparr>) else st)"
| "step v e st (Timeslice d) =
     (case recorderRef st of
        Some r \<Rightarrow> if rstate r = Recording then ondataavailable d st else st
      | None \<Rightarrow> st)"
| "step v e st (Flush d) =
     (case recorderRef st of
        Some r \<Rightarrow>
          if flush_queued r
          then ondataavailable d (st\<lparr>recorderRef := Some (r\<lparr>flush_queued := False\<rparr>)\<rparr>)
          else st
      | None \<Rightarrow> st)"
| "step v e st Grace =
     (case graceTimer st of
        Some (due, mimeType) \<Rightarrow>
          if due \<le> clock st then finish_timeout v mimeType (st\<lparr>graceTimer := None\<rparr>) else st
      | None \<Rightarrow> st)"
| "step v e st Hide =
     (if hideTimers st > 0 then st\<lparr>showError := False, hideTimers := hideTimers st - 1\<rparr>
      else st)"
| "step v e st (Wait n) = st\<lparr>clock := clock st + n\<rparr>"

definition run :: "variant \<Rightarrow> env \<Rightarrow> app \<Rightarrow> event list \<Rightarrow> app" where
  "run v e st evs = foldl (step v e) st evs"

subsection \<open>Reading a trace\<close>

fun published :: "(nat \<times> action) list \<Rightarrow> (publisher \<times> rat option) list" where
  \<comment> \<open>the progress values in the order they were published, each with its publisher\<close>
  "published [] = []"
| "published ((t, Publish who x) # tr) = (who, x) # published tr"
| "published (_ # tr) = published tr"

fun is_final_step :: "action \<Rightarrow> bool" where
  "is_final_step Pause_video = True"
| "is_final_step Stop_recorder = True"
| "is_final_step (Arm_grace n) = True"
| "is_final_step (Concat k) = True"
| "is_final_step _ = False"

definition final_steps :: "(nat \<times> action) list \<Rightarrow> (nat \<times> action) list" where
  \<comment> \<open>the steps of the finalization in a trace, with their times\<close>
  "final_steps tr = filter (\<lambda>p. is_final_step (snd p)) tr"

fun displayed :: "(nat \<times> action) list \<Rightarrow> message list" where
  \<comment> \<open>the messages passed to \<^verbatim>\<open>displayError\<close>, in order\<close>
  "displayed [] = []"
| "displayed ((t, Display m) # tr) = m # displayed tr"
| "displayed (_ # tr) = displayed tr"

fun is_delivery :: "event \<Rightarrow> bool" where
  \<comment> \<open>the two events by which the recorder hands over data\<close>
  "is_delivery (Timeslice d) = True"
| "is_delivery (Flush d) = True"
| "is_delivery _ = False"

fun frames_ok :: "(rat \<Rightarrow> string) \<Rightarrow> rat option \<Rightarrow> draw_op list \<Rightarrow> bool" where
  \<comment> \<open>every text drawn is \<open>f\<close> of the position of the frame drawn last before it\<close>
  "frames_ok f shown [] = True"
| "frames_ok f shown (DrawImage pos x y w h # os) = frames_ok f (Some pos) os"
| "frames_ok f shown (FillText c fs t x y # os) =
     ((case shown of Some pos \<Rightarrow> t = f pos | None \<Rightarrow> False) \<and> frames_ok f shown os)"
| "frames_ok f shown (_ # os) = frames_ok f shown os"

fun texts_of :: "draw_op list \<Rightarrow> string list" where
  "texts_of [] = []"
| "texts_of (FillText c fs t x y # os) = t # texts_of os"
| "texts_of (_ # os) = texts_of os"

fun panels_of :: "draw_op list \<Rightarrow> draw_op list" where
  "panels_of [] = []"
| "panels_of (FillRect c x y w h # os) = FillRect c x y w h # panels_of os"
| "panels_of (_ # os) = panels_of os"

definition started :: "app \<Rightarrow> bool" where
  \<comment> \<open>the state \<^verbatim>\<open>processVideo\<close> leaves when it has started a run: the source plays from
      position 0, the recorder records, the handler is set, the promise of \<^verbatim>\<open>play()\<close> is
      open, progress 0 is the last thing published and no step of a finalization has
      been taken\<close>
  "started st =
     ((case (videoRef st, recorderRef st, onended st) of
         (Some vd, Some r, Some m) \<Rightarrow>
           playing vd \<and> currentTime vd = 0 \<and> 0 \<le> duration vd
           \<and> rstate r = Recording \<and> \<not> flush_queued r
       | _ \<Rightarrow> False)
      \<and> \<not> videoCompleted st \<and> \<not> updateInterval st \<and> play_pending st
      \<and> graceTimer st = None
      \<and> published (trace st) = [(By_start, Some 0)]
      \<and> final_steps (trace st) = [])"

subsection \<open>The order of a finalization\<close>

definition first_two :: "variant \<Rightarrow> action list" where
  \<comment> \<open>the first two steps of \<^verbatim>\<open>finishProcessing\<close> in the order of each file\<close>
  "first_two v = (case v of App_tsx \<Rightarrow> [Pause_video, Stop_recorder]
                          | Part_000 \<Rightarrow> [Stop_recorder, Pause_video])"

definition final_order :: "variant \<Rightarrow> (nat \<times> action) list \<Rightarrow> bool" where
  \<comment> \<open>no step yet; or the two stops in the file's order and then the timer; or these and
      then a concatenation, 1000 ms or more after the timer was set\<close>
  "final_order v fs =
     (case fs of
        [] \<Rightarrow> True
      | _ \<Rightarrow>
          map snd (take 3 fs) = first_two v @ [Arm_grace grace_ms]
          \<and> (case drop 3 fs of
                [] \<Rightarrow> True
              | [(t, Concat k)] \<Rightarrow> fst (fs ! 2) + grace_ms \<le> t
              | _ \<Rightarrow> False))"

definition inv_final :: "variant \<Rightarrow> app \<Rightarrow> bool" where
  \<comment> \<open>what holds of a run at every moment: before the source has ended the recorder
      records and no step has been taken; after it the steps taken are in order, and while
      the timer is armed it is due 1000 ms after it was set\<close>
  "inv_final v st =
     (case videoRef st of
        None \<Rightarrow> False
      | Some vd \<Rightarrow>
          if videoCompleted st
          then \<not> playing vd \<and> final_steps (trace st) \<noteq> []
               \<and> final_order v (final_steps (trace st))
               \<and> (case graceTimer st of
                     None \<Rightarrow> True
                   | Some (due, m) \<Rightarrow>
                       length (final_steps (trace st)) = 3
                       \<and> due = fst (final_steps (trace st) ! 2) + grace_ms)
          else (case recorderRef st of Some r \<Rightarrow> rstate r = Recording | None \<Rightarrow> False)
               \<and> onended st \<noteq> None \<and> graceTimer st = None \<and> final_steps (trace st) = [])"

subsection \<open>The published progress of a run\<close>









subsection \<open>Example values\<close>

definition utc_zone :: env where
  "utc_zone = \<lparr>now = 1700000000000, localTZA = (\<lambda>t u. 0), Date_parse = (\<lambda>s. None),
               measureText = (\<lambda>fs t. of_nat (10 * length t)),
               isTypeSupported = (\<lambda>ty. ty = ''video/mp4'' \<or> ty = ''video/mp4; codecs=avc1'')\<rparr>"

definition utc_env :: env where
  \<comment> \<open>a host in the UTC zone whose recorder supports MP4, which measures 10 pixels for
      each character, and whose engine reads the strings of \<open>canonical_time\<close> and no other\<close>
  "utc_env = utc_zone\<lparr>Date_parse := canonical_time utc_zone\<rparr>"

definition mounted :: app where
  \<comment> \<open>the component after mounting: the initial values of \<^verbatim>\<open>useState\<close> and \<^verbatim>\<open>useRef\<close>, an
      empty canvas and a video element without source\<close>
  "mounted =
     \<lparr>the_file = None, videoStartTime = 0, vidName = [], videoURL = None, isProcessing = False,
      fontSize = 16, progress = Some 0, error = No_message, showError = False,
      canvasRef = Some \<lparr>width = 300, height = 150, has_ctx = True, font = 10, ops = []\<rparr>,
      videoRef = Some \<lparr>paused = True, ended = False, currentTime = 0, duration = 0,
                       muted = False, videoWidth = 0, videoHeight = 0\<rparr>,
      recorderRef = None, allChunks = [], videoCompleted = False, onended = None,
      play_pending = False, updateInterval = False, raf_pending = False, graceTimer = None,
      hideTimers = 0, clock = 0, trace = []\<rparr>"

definition metadata :: "nat \<Rightarrow> nat \<Rightarrow> rat \<Rightarrow> app \<Rightarrow> app" where
  \<comment> \<open>the runtime learns the size and the duration of the source, then the listener runs\<close>
  "metadata w h d st =
     handleMetadataLoaded
       (st\<lparr>videoRef := map_option (\<lambda>vd. vd\<lparr>videoWidth := w, videoHeight := h, duration := d\<rparr>)
                          (videoRef st)\<rparr>)"

definition loaded :: app where
  \<comment> \<open>a 10 second source of 1280 by 720 named for midnight of 2024-01-01 has been chosen\<close>
  "loaded =
     metadata 1280 720 10
       (handleFileUpload utc_env (Some (''2024-01-01_00-00-00-000.mp4'', ''video/mp4'')) mounted)"

section \<open>Properties\<close>

subsection \<open>Splitting and stripping\<close>

lemma split_str_nonempty: "split_str xs c \<noteq> []"
  by (induction xs) (auto split: list.splits)

lemma split_str_none: "c \<notin> set xs \<Longrightarrow> split_str xs c = [xs]"
  by (induction xs) auto

lemma split_str_at: "c \<notin> set xs \<Longrightarrow> split_str (xs @ c # ys) c = xs # split_str ys c"
  by (induction xs) auto

lemma hd_split_str: "hd (split_str xs c) = takeWhile (\<lambda>x. x \<noteq> c) xs"
  by (induction xs) (auto simp: split_str_nonempty split: list.splits)

lemma takeWhile_field_app:
  "c \<notin> set s \<Longrightarrow> takeWhile (\<lambda>x. x \<noteq> c) (s @ r) = s @ takeWhile (\<lambda>x. x \<noteq> c) r"
  by (induction s) auto

lemma last_index_absent: "c \<notin> set xs \<Longrightarrow> last_index c xs i found = found"
  by (induction xs arbitrary: i found) auto

lemma last_index_at:
  "c \<notin> set ys \<Longrightarrow> last_index c (xs @ c # ys) i found = i + int (length xs)"
  by (induction xs arbitrary: i found) (auto simp: last_index_absent)

lemma strip_ext_dotless: "CHR ''.'' \<notin> set f \<Longrightarrow> strip_ext f = []"
  by (simp add: strip_ext_def lastIndexOf_def last_index_absent substring_def)

lemma strip_ext_at: "CHR ''.'' \<notin> set x \<Longrightarrow> strip_ext (stem @ CHR ''.'' # x) = stem"
  by (simp add: strip_ext_def lastIndexOf_def last_index_at substring_def Let_def min_def max_def)

lemma digit_not_sep:
  "is_digit c \<Longrightarrow> c \<noteq> CHR ''-'' \<and> c \<noteq> CHR ''_'' \<and> c \<noteq> CHR '' '' \<and> c \<noteq> CHR '':''"
  by (auto simp: is_digit_def)

lemma field_no_sep:
  "is_field n s \<Longrightarrow>
   CHR ''-'' \<notin> set s \<and> CHR ''_'' \<notin> set s \<and> CHR '' '' \<notin> set s \<and> CHR '':'' \<notin> set s"
  using digit_not_sep by (auto simp: is_field_def list_all_iff)

lemma split_str_two: "c \<notin> set a \<Longrightarrow> c \<notin> set b \<Longrightarrow> split_str (a @ c # b) c = [a, b]"
  by (simp add: split_str_at split_str_none)

lemma split_str_three:
  "c \<notin> set a \<Longrightarrow> c \<notin> set b \<Longrightarrow> c \<notin> set d \<Longrightarrow> split_str (a @ c # b @ c # d) c = [a, b, d]"
  by (simp add: split_str_at split_str_none)

lemma canonical_time_fields:
  assumes Y: "is_field 4 Y" and Mo: "is_field 2 Mo" and D: "is_field 2 D"
    and H: "is_field 2 H" and Mi: "is_field 2 Mi" and S: "is_field 2 S"
    and ok: "100 \<le> num_val Y" "valid_date (num_val Y) (num_val Mo) (num_val D)"
            "valid_time (num_val H) (num_val Mi) (num_val S)"
  shows "canonical_time e (Y @ ''-'' @ Mo @ ''-'' @ D @ '' '' @ H @ '':'' @ Mi @ '':'' @ S)
         = Some (local_instant e (num_val Y) (num_val Mo) (num_val D)
                   (num_val H) (num_val Mi) (num_val S))"
proof -
  define date where "date = Y @ CHR ''-'' # Mo @ CHR ''-'' # D"
  define time where "time = H @ CHR '':'' # Mi @ CHR '':'' # S"
  have "CHR '' '' \<notin> set date" "CHR '' '' \<notin> set time"
    using field_no_sep [OF Y] field_no_sep [OF Mo] field_no_sep [OF D]
      field_no_sep [OF H] field_no_sep [OF Mi] field_no_sep [OF S]
    by (simp_all add: date_def time_def)
  then have sp: "split_str (date @ CHR '' '' # time) (CHR '' '') = [date, time]"
    by (rule split_str_two)
  have d: "split_str date (CHR ''-'') = [Y, Mo, D]"
    unfolding date_def
    using field_no_sep [OF Y] field_no_sep [OF Mo] field_no_sep [OF D]
    by (intro split_str_three) simp_all
  have t: "split_str time (CHR '':'') = [H, Mi, S]"
    unfolding time_def
    using field_no_sep [OF H] field_no_sep [OF Mi] field_no_sep [OF S]
    by (intro split_str_three) simp_all
  have "canonical_time e (date @ CHR '' '' # time)
        = Some (local_instant e (num_val Y) (num_val Mo) (num_val D)
                  (num_val H) (num_val Mi) (num_val S))"
    unfolding canonical_time_def sp using d t Y Mo D H Mi S ok by simp
  then show ?thesis by (simp add: date_def time_def)
qed

lemma parse_try_parts:
  assumes "strip_ext f = stem" and "split_str stem (CHR ''_'') = date # p # ps"
    and "split_str p (CHR ''-'') = H # Mi # S # flds"
  shows "parse_try e f
         = (case Date_parse e (date @ '' '' @ H @ '':'' @ Mi @ '':'' @ S) of
              None \<Rightarrow> Inl Unparsable_time | Some t \<Rightarrow> Inr t)"
  using assms by (simp add: parse_try_def date_string_def)

lemma parse_try_shape:
  assumes Y: "is_field 4 Y" and Mo: "is_field 2 Mo" and D: "is_field 2 D"
    and H: "is_field 2 H" and Mi: "is_field 2 Mi" and S: "is_field 2 S"
    and suffix: "suffix = [] \<or> hd suffix = CHR ''-'' \<or> hd suffix = CHR ''_''"
    and x: "CHR ''.'' \<notin> set x"
  shows "parse_try e (Y @ ''-'' @ Mo @ ''-'' @ D @ ''_'' @ H @ ''-'' @ Mi @ ''-'' @ S @ suffix @ ''.'' @ x)
         = (case Date_parse e (Y @ ''-'' @ Mo @ ''-'' @ D @ '' '' @ H @ '':'' @ Mi @ '':'' @ S) of
              None \<Rightarrow> Inl Unparsable_time | Some t \<Rightarrow> Inr t)"
proof -
  let ?date = "Y @ ''-'' @ Mo @ ''-'' @ D"
  let ?rest = "H @ ''-'' @ Mi @ ''-'' @ S @ suffix"
  let ?stem = "?date @ ''_'' @ ?rest"
  define suf where "suf = takeWhile (\<lambda>c. c \<noteq> CHR ''_'') suffix"
  have strip: "strip_ext (?stem @ ''.'' @ x) = ?stem"
    using strip_ext_at [OF x, of ?stem] by simp
  have nodate: "CHR ''_'' \<notin> set ?date"
    using field_no_sep [OF Y] field_no_sep [OF Mo] field_no_sep [OF D] by simp
  have parts: "split_str ?stem (CHR ''_'') = ?date # split_str ?rest (CHR ''_'')"
    using split_str_at [OF nodate, of ?rest] by simp
  obtain p ps where ps: "split_str ?rest (CHR ''_'') = p # ps"
    using split_str_nonempty [of ?rest "CHR ''_''"] by (cases "split_str ?rest (CHR ''_'')") auto
  have "p = takeWhile (\<lambda>c. c \<noteq> CHR ''_'') ?rest"
    using hd_split_str [of ?rest "CHR ''_''"] ps by simp
  also have "\<dots> = H @ ''-'' @ Mi @ ''-'' @ S @ suf"
    using field_no_sep [OF H] field_no_sep [OF Mi] field_no_sep [OF S]
    by (simp add: takeWhile_field_app suf_def)
  finally have p: "p = H @ ''-'' @ Mi @ ''-'' @ S @ suf" .
  have suf: "suf = [] \<or> (\<exists>r. suf = CHR ''-'' # r)"
    using suffix by (cases suffix) (auto simp: suf_def)
  have "\<exists>flds. split_str (S @ suf) (CHR ''-'') = S # flds"
    using suf
  proof
    assume "suf = []"
    then show ?thesis using field_no_sep [OF S] by (simp add: split_str_none)
  next
    assume "\<exists>r. suf = CHR ''-'' # r"
    then obtain r where "suf = CHR ''-'' # r" ..
    then show ?thesis using field_no_sep [OF S] by (simp add: split_str_at)
  qed
  then obtain flds where flds: "split_str (S @ suf) (CHR ''-'') = S # flds" ..
  have "split_str p (CHR ''-'') = H # split_str (Mi @ ''-'' @ S @ suf) (CHR ''-'')"
    using field_no_sep [OF H] split_str_at [of "CHR ''-''" H "Mi @ ''-'' @ S @ suf"]
    by (simp add: p)
  also have "split_str (Mi @ ''-'' @ S @ suf) (CHR ''-'') = Mi # split_str (S @ suf) (CHR ''-'')"
    using field_no_sep [OF Mi] split_str_at [of "CHR ''-''" Mi "S @ suf"] by simp
  finally have tp: "split_str p (CHR ''-'') = H # Mi # S # flds"
    by (simp add: flds)
  have "split_str ?stem (CHR ''_'') = ?date # p # ps"
    using parts ps by simp
  from parse_try_parts [OF strip this tp, of e] show ?thesis by simp
qed

lemma canonical_time_zone:
  assumes "localTZA e = localTZA e'"
  shows "canonical_time e = canonical_time e'"
proof -
  have "local_instant e = local_instant e'"
    using assms by (intro ext) (simp add: local_instant_def UTC_of_local_def)
  then show ?thesis
    by (intro ext) (simp only: canonical_time_def)
qed

lemma Date_parse_utc_env: "Date_parse utc_env = canonical_time utc_env"
  using canonical_time_zone [of utc_zone utc_env] by (simp add: utc_env_def)

lemma reads_local_time_utc_env: "reads_local_time utc_env"
  by (simp add: reads_local_time_def Date_parse_utc_env)

subsection \<open>The filename timestamp parser\<close>

text \<open>
  Claim C2 says that every filename of the shape \<^verbatim>\<open>YYYY-MM-DD_HH-MM-SS...\<close> parses to the
  local instant of that date and time. A name of that shape without any \<^verbatim>\<open>.\<close> does not:
  the stripped name is then empty, the parser warns and answers the wall clock.
\<close>

theorem dotless_name_counterexample:
  "parseTimeFromFilename utc_env ''2024-03-01_14-05-09-000''
     = (now utc_env, Some (Time_parse_error Bad_filename_format))
   \<and> fst (parseTimeFromFilename utc_env ''2024-03-01_14-05-09-000'')
       \<noteq> local_instant utc_env 2024 3 1 14 5 9"
  by (simp add: parseTimeFromFilename_def parse_try_def strip_ext_def lastIndexOf_def
      substring_def local_instant_def UTC_of_local_def MakeDate_def MakeDay_def MakeTime_def
      msPerDay_def utc_env_def utc_zone_def)

text \<open>
  Claim C2, amended: on an engine that reads a string \<^verbatim>\<open>YYYY-MM-DD HH:MM:SS\<close> with a
  year from 0100 on as the local date and time it writes, for every filename that has a
  \<^verbatim>\<open>.\<close> and whose part before the last \<^verbatim>\<open>.\<close> is a four-digit year from 0100 on, a
  two-digit month and a two-digit day joined by dashes, an underscore, two-digit hour,
  minute and second joined by dashes, and then nothing or a suffix that starts with a
  dash or an underscore, where the date and the time exist, the parser returns exactly
  the local instant of that date and time, without a warning. (What is read from a year
  below 0100 is the engine's choice: the parser hands the string on as it is.)
\<close>

theorem parser_returns_local_instant:
  assumes "reads_local_time e"
    and "is_field 4 Y" and "is_field 2 Mo" and "is_field 2 D"
    and "is_field 2 H" and "is_field 2 Mi" and "is_field 2 S"
    and "100 \<le> num_val Y"
    and "valid_date (num_val Y) (num_val Mo) (num_val D)"
    and "valid_time (num_val H) (num_val Mi) (num_val S)"
    and "suffix = [] \<or> hd suffix = CHR ''-'' \<or> hd suffix = CHR ''_''"
    and "CHR ''.'' \<notin> set x"
  shows "parseTimeFromFilename e
           (Y @ ''-'' @ Mo @ ''-'' @ D @ ''_'' @ H @ ''-'' @ Mi @ ''-'' @ S @ suffix @ ''.'' @ x)
         = (local_instant e (num_val Y) (num_val Mo) (num_val D)
              (num_val H) (num_val Mi) (num_val S), None)"
proof -
  let ?s = "Y @ ''-'' @ Mo @ ''-'' @ D @ '' '' @ H @ '':'' @ Mi @ '':'' @ S"
  let ?t = "local_instant e (num_val Y) (num_val Mo) (num_val D)
              (num_val H) (num_val Mi) (num_val S)"
  have "canonical_time e ?s = Some ?t"
    using assms by (intro canonical_time_fields)
  with assms(1) have "Date_parse e ?s = Some ?t"
    unfolding reads_local_time_def by blast
  then have "parse_try e
          (Y @ ''-'' @ Mo @ ''-'' @ D @ ''_'' @ H @ ''-'' @ Mi @ ''-'' @ S @ suffix @ ''.'' @ x)
        = Inr ?t"
    using assms parse_try_shape [of Y Mo D H Mi S suffix x e] by simp
  then show ?thesis by (simp add: parseTimeFromFilename_def)
qed

text \<open>The example of the specification, on a host in the UTC zone.\<close>

theorem parser_returns_local_instant_witness:
  "reads_local_time utc_env
   \<and> parseTimeFromFilename utc_env ''2024-03-01_14-05-09-000.mp4'' = (1709301909000, None)
   \<and> local_instant utc_env 2024 3 1 14 5 9 = 1709301909000"
  using parser_returns_local_instant [of utc_env "''2024''" "''03''" "''01''" "''14''" "''05''"
      "''09''" "''-000''" "''mp4''"] reads_local_time_utc_env
  by (simp add: is_field_def is_digit_def num_val_def digit_val_def valid_date_def
      valid_time_def days_in_month_def leap_year_def local_instant_def UTC_of_local_def
      MakeDate_def MakeDay_def MakeTime_def msPerDay_def utc_env_def utc_zone_def)


lemma parse_try_malformed: "malformed e f \<longleftrightarrow> (\<exists>err. parse_try e f = Inl err)"
  by (auto simp: malformed_def parse_try_def Let_def split: option.splits)

text \<open>
  Claim C3: on every engine, for every filename whose stripped name has fewer than two
  parts between underscores, or whose time part has fewer than three fields between
  dashes, or from whose assembled string the engine reads no date, the parser passes a parse-failure message to
  \<^verbatim>\<open>displayError\<close> and returns the wall clock of the call; the upload of a video file
  with such a name goes on: the file is taken, the warning is shown and the start time is
  that wall clock.
\<close>

theorem parse_failure_falls_back:
  assumes "malformed e f"
  shows "\<exists>err. parseTimeFromFilename e f = (now e, Some (Time_parse_error err))
           \<and> (take 6 ty = ''video/'' \<longrightarrow>
                videoStartTime (handleFileUpload e (Some (f, ty)) st) = now e
                \<and> the_file (handleFileUpload e (Some (f, ty)) st) = Some f
                \<and> error (handleFileUpload e (Some (f, ty)) st) = Time_parse_error err
                \<and> showError (handleFileUpload e (Some (f, ty)) st))"
proof -
  from assms obtain err where "parse_try e f = Inl err"
    by (auto simp: parse_try_malformed)
  then have p: "parseTimeFromFilename e f = (now e, Some (Time_parse_error err))"
    by (simp add: parseTimeFromFilename_def)
  then show ?thesis
    by (auto simp: handleFileUpload_def displayError_def emit_def)
qed

theorem parse_failure_falls_back_witness:
  "malformed utc_env ''2024-03-01_14-05.mp4''
   \<and> parseTimeFromFilename utc_env ''2024-03-01_14-05.mp4''
       = (1700000000000, Some (Time_parse_error Bad_time_format))
   \<and> videoStartTime (handleFileUpload utc_env (Some (''2024-03-01_14-05.mp4'', ''video/mp4'')) mounted)
       = 1700000000000"
  using parse_failure_falls_back [of utc_env "''2024-03-01_14-05.mp4''" "''video/mp4''" mounted]
  by (simp add: malformed_def parseTimeFromFilename_def parse_try_def strip_ext_def
      lastIndexOf_def substring_def utc_env_def utc_zone_def)

text \<open>
  Claim C10: a filename without any \<^verbatim>\<open>.\<close> always fails with the message for a wrong
  filename format and falls back to the wall clock, whatever the name is: the substring
  up to index -1 is empty, and the empty string splits into one part.
\<close>

theorem dotless_name_fails:
  assumes "CHR ''.'' \<notin> set f"
  shows "parseTimeFromFilename e f = (now e, Some (Time_parse_error Bad_filename_format))"
  using assms by (simp add: parseTimeFromFilename_def parse_try_def strip_ext_dotless)

theorem dotless_name_fails_witness:
  "CHR ''.'' \<notin> set ''2024-03-01_14-05-09''
   \<and> parseTimeFromFilename utc_env ''2024-03-01_14-05-09''
       = (1700000000000, Some (Time_parse_error Bad_filename_format))"
  using dotless_name_fails [of "''2024-03-01_14-05-09''" utc_env]
  by (simp add: utc_env_def utc_zone_def)

subsection \<open>The font size\<close>

lemma Math_round_div30: "Math_round (of_nat w / 30) = (int w + 15) div 30"
proof -
  have "(of_nat w / 30 + 1 / 2 :: rat) = of_int (int w + 15) / of_int 30"
    by (simp add: field_simps)
  then show ?thesis
    unfolding Math_round_def by (simp only: floor_divide_of_int_eq)
qed

lemma newFontSize_div: "newFontSize w = max 16 ((int w + 15) div 30)"
  by (simp add: newFontSize_def Math_round_div30)

subsection \<open>The example states\<close>

lemma parse_example:
  "parseTimeFromFilename utc_env ''2024-01-01_00-00-00-000.mp4'' = (1704067200000, None)"
  by (simp add: parseTimeFromFilename_def parse_try_def strip_ext_def lastIndexOf_def
  substring_def date_string_def canonical_time_def is_field_def is_digit_def num_val_def
  digit_val_def valid_date_def valid_time_def days_in_month_def leap_year_def
  local_instant_def UTC_of_local_def MakeDate_def MakeDay_def MakeTime_def msPerDay_def
  utc_env_def utc_zone_def)

lemma strip_example: "strip_ext ''2024-01-01_00-00-00-000.mp4'' = ''2024-01-01_00-00-00-000''"
  by (simp add: strip_ext_def lastIndexOf_def substring_def)

lemma loaded_eq:
  "loaded =
     \<lparr>the_file = Some ''2024-01-01_00-00-00-000.mp4'', videoStartTime = 1704067200000,
      vidName = ''2024-01-01_00-00-00-000'', videoURL = None, isProcessing = False,
      fontSize = 43, progress = Some 0, error = No_message, showError = False,
      canvasRef = Some \<lparr>width = 1280, height = 720, has_ctx = True, font = 43, ops = []\<rparr>,
      videoRef = Some \<lparr>paused = True, ended = False, currentTime = 0, duration = 10,
                       muted = False, videoWidth = 1280, videoHeight = 720\<rparr>,
      recorderRef = None, allChunks = [], videoCompleted = False, onended = None,
      play_pending = False, updateInterval = False, raf_pending = False, graceTimer = None,
      hideTimers = 0, clock = 0, trace = []\<rparr>"
  by (simp add: loaded_def metadata_def handleFileUpload_def parse_example strip_example
      mounted_def video_load_def handleMetadataLoaded_def newFontSize_div Let_def)


lemma negotiated:
  "checkMimeTypeSupport App_tsx utc_env
     = Some \<lparr>ext = ''mp4'', opt_mimeType = ''video/mp4'', opt_videoBitsPerSecond = Some 10000000\<rparr>"
  "checkMimeTypeSupport Part_000 utc_env
     = Some \<lparr>ext = ''mp4'', opt_mimeType = ''video/mp4; codecs=avc1'',
             opt_videoBitsPerSecond = Some 10000000\<rparr>"
  by (simp_all add: checkMimeTypeSupport_def utc_env_def utc_zone_def)

lemma utc_supported:
  "isTypeSupported utc_env ''video/mp4''"
  "isTypeSupported utc_env ''video/mp4; codecs=avc1''"
  by (simp_all add: utc_env_def utc_zone_def)

lemma started_App_tsx:
  "processVideo App_tsx utc_env loaded =
     \<lparr>the_file = Some ''2024-01-01_00-00-00-000.mp4'', videoStartTime = 1704067200000,
      vidName = ''2024-01-01_00-00-00-000'', videoURL = None, isProcessing = True,
      fontSize = 43, progress = Some 0, error = No_message, showError = False,
      canvasRef = Some \<lparr>width = 1280, height = 720, has_ctx = True, font = 43, ops = []\<rparr>,
      videoRef = Some \<lparr>paused = False, ended = False, currentTime = 0, duration = 10,
                       muted = True, videoWidth = 1280, videoHeight = 720\<rparr>,
      recorderRef = Some \<lparr>rstate = Recording, rmimeType = ''video/mp4'', flush_queued = False\<rparr>,
      allChunks = [], videoCompleted = False,
      onended = Some \<lparr>ext = ''mp4'', opt_mimeType = ''video/mp4'',
                       opt_videoBitsPerSecond = Some 10000000\<rparr>,
      play_pending = True, updateInterval = False, raf_pending = False, graceTimer = None,
      hideTimers = 0, clock = 0, trace = [(0, Publish By_start (Some 0))]\<rparr>"
  by (simp add: processVideo_def loaded_eq negotiated setProgress_def emit_def utc_supported)

lemma started_Part_000:
  "processVideo Part_000 utc_env loaded =
     \<lparr>the_file = Some ''2024-01-01_00-00-00-000.mp4'', videoStartTime = 1704067200000,
      vidName = ''2024-01-01_00-00-00-000'', videoURL = None, isProcessing = True,
      fontSize = 43, progress = Some 0, error = No_message, showError = False,
      canvasRef = Some \<lparr>width = 1280, height = 720, has_ctx = True, font = 43, ops = []\<rparr>,
      videoRef = Some \<lparr>paused = False, ended = False, currentTime = 0, duration = 10,
                       muted = True, videoWidth = 1280, videoHeight = 720\<rparr>,
      recorderRef = Some \<lparr>rstate = Recording, rmimeType = ''video/mp4; codecs=avc1'',
                          flush_queued = False\<rparr>,
      allChunks = [], videoCompleted = False,
      onended = Some \<lparr>ext = ''mp4'', opt_mimeType = ''video/mp4; codecs=avc1'',
                       opt_videoBitsPerSecond = Some 10000000\<rparr>,
      play_pending = True, updateInterval = False, raf_pending = False, graceTimer = None,
      hideTimers = 0, clock = 0, trace = [(0, Publish By_start (Some 0))]\<rparr>"
  by (simp add: processVideo_def loaded_eq negotiated setProgress_def emit_def utc_supported)

subsection \<open>The font size of a source\<close>

text \<open>
  Claim C7: the font size set when the metadata is loaded is
  \<open>max 16 (round (width / 30))\<close>, it is never below 16, and it does not decrease when the
  frame width grows.
\<close>

theorem font_size_floor_and_monotone:
  "newFontSize w = max 16 (round (of_nat w / 30 :: rat))
   \<and> 16 \<le> newFontSize w
   \<and> (w \<le> w' \<longrightarrow> newFontSize w \<le> newFontSize w')
   \<and> (videoRef st = Some vd \<and> canvasRef st = Some cv \<longrightarrow>
        fontSize (handleMetadataLoaded st) = newFontSize (videoWidth vd))"
proof -
  have mono: "w \<le> w' \<Longrightarrow> newFontSize w \<le> newFontSize w'"
    unfolding newFontSize_div by (intro max.mono order_refl zdiv_mono1) simp_all
  show ?thesis
    using mono
    by (auto simp: newFontSize_def Math_round_def round_def handleMetadataLoaded_def Let_def)
qed

theorem font_size_floor_and_monotone_witness:
  "newFontSize 1280 = 43 \<and> newFontSize 100 = 16 \<and> (100::nat) \<le> 1280
   \<and> newFontSize 100 \<le> newFontSize 1280
   \<and> fontSize loaded = 43 \<and> fontSize (handleMetadataLoaded mounted) = 16"
proof -
  have a: "newFontSize 1280 = 43" "newFontSize 100 = 16" "newFontSize 0 = 16"
    by (simp_all add: newFontSize_div)
  have b: "fontSize loaded = 43"
    by (simp add: loaded_eq)
  show ?thesis
    using font_size_floor_and_monotone [of 100 1280 mounted
        "\<lparr>paused = True, ended = False, currentTime = 0, duration = 0, muted = False,
          videoWidth = 0, videoHeight = 0\<rparr>"
        "\<lparr>width = 300, height = 150, has_ctx = True, font = 10, ops = []\<rparr>"] a b
    by (simp add: mounted_def)
qed

subsection \<open>The overlay compositor\<close>

text \<open>
  Claim C6 says that every composited frame gets an opaque panel whose margin to the
  corner is the padding. On a frame of 1280 by 720 with a text measured at 190 pixels,
  \<^verbatim>\<open>App.tsx\<close> draws no panel at all, and the other file draws a panel of opacity 1/2
  whose right edge is at 1267.2, half a padding (12.8) from the frame's edge.
\<close>

theorem watermark_layout_counterexample:
  "panels_of (watermark_ops App_tsx utc_env 43
      \<lparr>width = 1280, height = 720, has_ctx = True, font = 43, ops = []\<rparr> ''2024-01-01 00:00:00'') = []
   \<and> panels_of (watermark_ops Part_000 utc_env 43
      \<lparr>width = 1280, height = 720, has_ctx = True, font = 43, ops = []\<rparr> ''2024-01-01 00:00:00'')
     = [FillRect (RGBA 0 0 0 (1 / 2)) (5258 / 5) (3257 / 5) (1078 / 5) (279 / 5)]"
  by (simp add: watermark_ops_def utc_env_def utc_zone_def)

text \<open>
  Claim C6, amended: with the padding \<open>p\<close> a fiftieth of the frame width and \<open>tw\<close> the
  measured text width, the second file draws a black panel of opacity 1/2, \<open>tw + p\<close>
  wide and font size plus \<open>p / 2\<close> high, whose right and bottom edges are \<open>p / 2\<close> inside
  the frame, and then the text in white of opacity 9/10, ending \<open>p\<close> from the right edge
  on a baseline \<open>p\<close> above the bottom; \<^verbatim>\<open>App.tsx\<close> draws only the text, in white of
  opacity 1/2, at the same place. With a canvas, a context and a video, that is all
  \<^verbatim>\<open>drawWatermark\<close> adds to the canvas.
\<close>

theorem watermark_layout:
  fixes e :: env and fs :: int and cv :: canvas and s :: string
  defines "W \<equiv> of_nat (width cv)" and "H \<equiv> of_nat (height cv)"
    and "tw \<equiv> measureText e fs s"
  defines "p \<equiv> W / 50"
  shows "watermark_ops Part_000 e fs cv s
           = [FillRect (RGBA 0 0 0 (1 / 2))
                (W - p / 2 - (tw + p)) (H - p / 2 - (of_int fs + p / 2))
                (tw + p) (of_int fs + p / 2),
              FillText (RGBA 255 255 255 (9 / 10)) fs s (W - p - tw) (H - p)]
    \<and> watermark_ops App_tsx e fs cv s
           = [FillText (RGBA 255 255 255 (1 / 2)) fs s (W - p - tw) (H - p)]
    \<and> (canvasRef st = Some cv \<and> has_ctx cv \<and> videoRef st = Some vd \<longrightarrow>
           canvasRef (drawWatermark v e s st)
             = Some (cv\<lparr>font := fontSize st,
                        ops := ops cv @ watermark_ops v e (fontSize st) cv s\<rparr>))"
  by (simp add: watermark_ops_def drawWatermark_def W_def H_def tw_def p_def Let_def
      algebra_simps)


theorem watermark_layout_witness:
  "canvasRef (drawWatermark Part_000 utc_env ''2024-01-01 00:00:00'' mounted)
     = Some \<lparr>width = 300, height = 150, has_ctx = True, font = 16,
             ops = [FillRect (RGBA 0 0 0 (1 / 2)) 101 128 196 19,
                    FillText (RGBA 255 255 255 (9 / 10)) 16 ''2024-01-01 00:00:00'' 104 144]\<rparr>"
  using watermark_layout [where cv = "\<lparr>width = 300, height = 150, has_ctx = True, font = 10, ops = []\<rparr>"
        and e = utc_env and fs = 16 and s = "''2024-01-01 00:00:00''" and st = mounted
        and vd = "\<lparr>paused = True, ended = False, currentTime = 0, duration = 0, muted = False,
          videoWidth = 0, videoHeight = 0\<rparr>" and v = Part_000]
  by (simp add: mounted_def utc_env_def utc_zone_def)

subsection \<open>The text of every frame\<close>

lemma texts_of_append: "texts_of (xs @ ys) = texts_of xs @ texts_of ys"
  by (induction xs rule: texts_of.induct) simp_all

lemma texts_of_watermark: "texts_of (watermark_ops v e fs cv s) = [s]"
  by (cases v) (simp_all add: watermark_ops_def Let_def)

lemma frames_ok_group:
  "frames_ok f shown xs \<Longrightarrow>
   frames_ok f shown (xs @ ClearRect a b c d # DrawImage pos x y w h # ys)
   = frames_ok f (Some pos) ys"
  by (induction f shown xs rule: frames_ok.induct) simp_all

lemma frames_ok_watermark:
  "frames_ok f (Some pos) (watermark_ops v e fs cv s) = (s = f pos)"
  by (cases v) (simp_all add: watermark_ops_def Let_def)

lemma renderFrames_canvas:
  assumes "canvasRef st = Some cv" and "has_ctx cv" and "videoRef st = Some vd" and "playing vd"
  shows "canvasRef (renderFrames v e st)
         = Some (cv\<lparr>font := fontSize st,
                    ops := ops cv
                      @ ClearRect 0 0 (of_nat (width cv)) (of_nat (height cv))
                      # DrawImage (currentTime vd) 0 0 (of_nat (width cv)) (of_nat (height cv))
                      # watermark_ops v e (fontSize st) cv
                          (overlay_text e (videoStartTime st) (currentTime vd))\<rparr>)"
  using assms by (simp add: renderFrames_def drawWatermark_def Let_def watermark_ops_def)

lemma renderFrames_idle:
  "canvasRef st = None \<or> videoRef st = None
   \<or> (\<exists>cv vd. canvasRef st = Some cv \<and> videoRef st = Some vd \<and> (\<not> has_ctx cv \<or> \<not> playing vd))
   \<Longrightarrow> renderFrames v e st = st"
  by (auto simp: renderFrames_def split: option.splits)

lemma renderFrames_videoStartTime [simp]:
  "videoStartTime (renderFrames v e st) = videoStartTime st"
  by (simp add: renderFrames_def drawWatermark_def Let_def split: option.splits)

lemma renderFrames_frames_ok:
  assumes "canvasRef st = Some cv"
    and "frames_ok (overlay_text e (videoStartTime st)) None (ops cv)"
  shows "\<exists>cv'. canvasRef (renderFrames v e st) = Some cv'
           \<and> frames_ok (overlay_text e (videoStartTime st)) None (ops cv')"
proof (cases "videoRef st")
  case None
  then show ?thesis using assms by (simp add: renderFrames_idle)
next
  case (Some vd)
  show ?thesis
  proof (cases "has_ctx cv \<and> playing vd")
    case True
    then show ?thesis
      using assms Some renderFrames_canvas [of st cv vd v e]
      by (simp add: frames_ok_group frames_ok_watermark)
  next
    case False
    then have "renderFrames v e st = st"
      using assms Some by (intro renderFrames_idle) auto
    then show ?thesis using assms by simp
  qed
qed

lemmas handler_defs = video_onended_def finishProcessing_def stop_capture_def pause_source_def
  setProgress_def emit_def displayError_def play_resolved_def play_rejected_def
  progress_tick_def ondataavailable_def finish_timeout_def

lemma step_videoStartTime [simp]: "videoStartTime (step v e st ev) = videoStartTime st"
  by (cases ev; cases v) (simp_all add: handler_defs Let_def split: option.splits)

lemma step_frames_ok:
  assumes "canvasRef st = Some cv"
    and "frames_ok (overlay_text e (videoStartTime st)) None (ops cv)"
  shows "\<exists>cv'. canvasRef (step v e st ev) = Some cv'
           \<and> frames_ok (overlay_text e (videoStartTime st)) None (ops cv')"
proof (cases ev)
  case Play_resolved
  then show ?thesis
    using assms renderFrames_frames_ok
      [of "st\<lparr>play_pending := False, updateInterval := True\<rparr>" cv e v]
    by (simp add: play_resolved_def)
next
  case Frame
  then show ?thesis
    using assms renderFrames_frames_ok [of "st\<lparr>raf_pending := False\<rparr>" cv e v]
    by simp
qed (use assms in \<open>cases v; simp add: handler_defs Let_def split: option.splits\<close>)+

lemma run_frames_ok:
  assumes "canvasRef st = Some cv"
    and "frames_ok (overlay_text e (videoStartTime st)) None (ops cv)"
  shows "\<exists>cv'. canvasRef (run v e st evs) = Some cv'
           \<and> videoStartTime (run v e st evs) = videoStartTime st
           \<and> frames_ok (overlay_text e (videoStartTime st)) None (ops cv')"
  using assms
proof (induction evs arbitrary: st cv)
  case Nil
  then show ?case by (simp add: run_def)
next
  case (Cons ev evs)
  from step_frames_ok [OF Cons.prems, of v ev]
  obtain cv1 where "canvasRef (step v e st ev) = Some cv1"
    and "frames_ok (overlay_text e (videoStartTime (step v e st ev))) None (ops cv1)"
    by auto
  from Cons.IH [OF this] show ?case by (simp add: run_def)
qed


subsection \<open>Doubles\<close>

lemma round_even_of_int [simp]: "round_even (of_int n) = n"
  by (simp add: round_even_def)

lemma powi_less_iff: "(2::rat) powi m < 2 powi n \<longleftrightarrow> m < n"
  by (metis linorder_not_less one_less_numeral_iff power_int_increasing
      power_int_strict_increasing semiring_norm(76) less_eq_real_def order_less_imp_le
      numeral_One one_le_numeral)


lemma powi_diff: "(2::rat) powi (a - b) = 2 powi a / 2 powi b"
  by (rule power_int_diff) simp

lemma bitlen_powi:
  assumes "0 < p"
  shows "(2::rat) powi (bitlen p - 1) \<le> of_int p" and "of_int p < (2::rat) powi bitlen p"
proof -
  from bitlen_bounds [OF assms]
  have a: "2 ^ nat (bitlen p - 1) \<le> p" and b: "p < 2 ^ nat (bitlen p)" by simp_all
  have pos: "1 \<le> bitlen p" using assms by (auto simp: bitlen_alt_def)
  have "(of_int (2 ^ nat (bitlen p - 1)) :: rat) \<le> of_int p"
    using a by (simp only: of_int_le_iff)
  then show "(2::rat) powi (bitlen p - 1) \<le> of_int p"
    using pos by (simp add: power_int_def)
  have "(of_int p :: rat) < of_int (2 ^ nat (bitlen p))"
    using b by (simp only: of_int_less_iff)
  then show "of_int p < (2::rat) powi bitlen p"
    using pos by (simp add: power_int_def)
qed

lemma binade_bounds:
  assumes "0 < x"
  shows "2 powi binade x \<le> x" and "x < 2 powi (binade x + 1)"
proof -
  obtain p q where pq: "quotient_of x = (p, q)" by (cases "quotient_of x")
  then have q: "0 < q" and x: "x = of_int p / of_int q"
    by (simp_all add: quotient_of_denom_pos quotient_of_div)
  from assms x q have p: "0 < p"
    by (simp add: zero_less_divide_iff)
  define d where "d = bitlen p - bitlen q"
  have qr: "(0::rat) < of_int q" using q by simp
  have e1: "(2::rat) powi (d + 1) = 2 powi bitlen p / 2 powi (bitlen q - 1)"
  proof -
    have "d + 1 = bitlen p - (bitlen q - 1)" by (simp add: d_def)
    then show ?thesis by (simp only: powi_diff)
  qed
  have e2: "(2::rat) powi (d - 1) = 2 powi (bitlen p - 1) / 2 powi bitlen q"
  proof -
    have "d - 1 = bitlen p - 1 - bitlen q" by (simp add: d_def)
    then show ?thesis by (simp only: powi_diff)
  qed
  have up: "x < 2 powi (d + 1)"
    unfolding x e1 using bitlen_powi [OF p] bitlen_powi [OF q] p
    by (intro frac_less) simp_all
  have lo: "2 powi (d - 1) < x"
    unfolding x e2 using bitlen_powi [OF p] bitlen_powi [OF q] qr
    by (intro frac_less2) simp_all
  have b: "binade x = (if 2 powi d \<le> x then d else d - 1)"
    by (simp add: binade_def pq d_def)
  show "2 powi binade x \<le> x" using lo by (simp add: b)
  show "x < 2 powi (binade x + 1)" using up by (simp add: b)
qed

lemma binade_less:
  assumes "0 < x" and "x < 2 powi n"
  shows "binade x < n"
  using binade_bounds(1) [OF assms(1)] assms(2) powi_less_iff [of "binade x" n] by simp

lemma to_double_exact:
  assumes x: "x = of_int m * 2 powi j" and m: "\<bar>m\<bar> < 2 ^ 53" and j: "- 1074 \<le> j"
    and fin: "\<bar>x\<bar> < 2 powi 1024"
  shows "to_double x = Some x"
proof (cases "x = 0")
  case True
  then show ?thesis by (simp add: to_double_def)
next
  case False
  define a where "a = \<bar>x\<bar>"
  define k where "k = max (binade a) (- 1022) - 52"
  have a: "a = of_int \<bar>m\<bar> * 2 powi j" "0 < a"
    using False by (simp_all add: a_def x abs_mult)
  have "a < 2 powi 53 * 2 powi j"
    unfolding a(1) using m by (intro mult_strict_right_mono) simp_all
  then have "a < 2 powi (53 + j)"
    by (simp add: power_int_add)
  then have "binade a < 53 + j"
    using a(2) by (intro binade_less)
  then have kj: "k \<le> j"
    using j by (simp add: k_def)
  have "a / 2 powi k = of_int \<bar>m\<bar> * (2 powi j / 2 powi k)"
    by (simp add: a(1))
  also have "\<dots> = of_int \<bar>m\<bar> * 2 powi (j - k)"
    by (simp only: powi_diff)
  also have "\<dots> = of_int \<bar>m\<bar> * 2 ^ nat (j - k)"
    using kj by (simp add: power_int_def)
  also have "\<dots> = of_int (\<bar>m\<bar> * 2 ^ nat (j - k))"
    by simp
  finally have q: "a / 2 powi k = of_int (\<bar>m\<bar> * 2 ^ nat (j - k))" .
  have "round_even (a / 2 powi k) = \<bar>m\<bar> * 2 ^ nat (j - k)"
    unfolding q by (rule round_even_of_int)
  then have "of_int (round_even (a / 2 powi k)) * 2 powi k = a / 2 powi k * 2 powi k"
    by (simp only: q)
  also have "\<dots> = a"
    by simp
  finally have r: "of_int (round_even (a / 2 powi k)) * 2 powi k = a" .
  have s: "sgn x * a = x"
    by (simp add: a_def sgn_mult_abs)
  have "to_double x = (if 2 powi 1024 \<le> a then None else Some (sgn x * a))"
    using False unfolding to_double_def Let_def a_def [symmetric] k_def [symmetric] r by simp
  also have "\<dots> = Some (sgn x * a)"
    using fin unfolding a_def [symmetric] by (simp only: not_le [symmetric] if_False)
  finally show ?thesis
    by (simp only: s)
qed

lemma to_double_of_int:
  assumes "\<bar>n\<bar> \<le> 2 ^ 53"
  shows "to_double (of_int n) = Some (of_int n)"
proof (cases "\<bar>n\<bar> < 2 ^ 53")
  case True
  have "\<bar>of_int n :: rat\<bar> < 2 powi 1024"
  proof -
    have "(of_int \<bar>n\<bar> :: rat) < of_int (2 ^ 53)" using True by (simp only: of_int_less_iff)
    also have "\<dots> < 2 powi 1024" by simp
    finally show ?thesis by simp
  qed
  then show ?thesis
    using True by (intro to_double_exact [where m = n and j = 0]) simp_all
next
  case False
  with assms consider "n = 2 ^ 53" | "n = - (2 ^ 53)" by fastforce
  then show ?thesis
  proof cases
    case 1
    show ?thesis
      unfolding 1 by (rule to_double_exact [where m = "2 ^ 52" and j = 1]) simp_all
  next
    case 2
    show ?thesis
      unfolding 2 by (rule to_double_exact [where m = "- (2 ^ 52)" and j = 1]) simp_all
  qed
qed






















lemma Date_new_of_int:
  assumes "\<bar>t\<bar> \<le> 8640000000000000"
  shows "Date_new (Some (of_int t)) = Some t"
proof -
  have "(of_int \<bar>t\<bar> :: rat) \<le> of_int 8640000000000000"
    using assms by (simp only: of_int_le_iff)
  then have "\<bar>of_int t :: rat\<bar> \<le> 8640000000000000"
    by simp
  then show ?thesis
    by (simp add: Date_new_def)
qed

lemma overlay_text_whole_ms:
  assumes "pos * 1000 = of_int n" and "\<bar>n\<bar> \<le> 2 ^ 53"
    and "\<bar>start + n\<bar> \<le> 8640000000000000"
  shows "overlay_text e start pos = dayjs_format e (Some (start + n))"
proof -
  have "\<bar>start + n\<bar> \<le> 2 ^ 53"
    using assms(3) by simp
  then have "to_double (of_int start + of_int n) = Some (of_int (start + n))"
    using to_double_of_int [of "start + n"] by simp
  then have "double_sum start pos = Some (of_int (start + n))"
    using to_double_of_int [OF assms(2)] by (simp add: double_sum_def assms(1))
  then show ?thesis
    using Date_new_of_int [OF assms(3)] by (simp add: overlay_text_def)
qed

subsection \<open>The text of a frame\<close>

lemma format_example_0: "dayjs_format utc_env (Some 1704067200000) = ''2024-01-01 00:00:00''"
  by code_simp

lemma format_example_5: "dayjs_format utc_env (Some 1704067205000) = ''2024-01-01 00:00:05''"
  by code_simp

lemma format_example_64: "dayjs_format utc_env (Some 1704067264999) = ''2024-01-01 00:01:04''"
  by code_simp

lemma format_example_65: "dayjs_format utc_env (Some 1704067265000) = ''2024-01-01 00:01:05''"
  by code_simp

lemma double_sum_example:
  "double_sum 1704067200000 (65 - 1 / 2 ^ 24) = Some 1704067265000"
  by code_simp

lemma exact_sum_example: "\<lfloor>1704067200000 + (65 - 1 / 2 ^ 24) * 1000 :: rat\<rfloor> = 1704067264999"
  by code_simp

text \<open>
  Claim C1 says that the text of a frame is the start time plus the playback position,
  formatted. The sum is one of doubles: at a start of 2024-01-01 00:00:00 UTC and the
  position 65 - 1/16777216 seconds, the product with 1000 is exact, the sum
  1704067264999.99994 is not a double and rounds up to 1704067265000, and the text drawn
  is that of 00:01:05, while the start time plus the position is still in second 00:01:04.
\<close>

theorem double_sum_counterexample:
  "overlay_text utc_env 1704067200000 (65 - 1 / 2 ^ 24) = ''2024-01-01 00:01:05''
   \<and> dayjs_format utc_env (Some \<lfloor>1704067200000 + (65 - 1 / 2 ^ 24) * 1000 :: rat\<rfloor>)
       = ''2024-01-01 00:01:04''"
  by (simp only: overlay_text_def double_sum_example exact_sum_example format_example_64)
    (simp add: Date_new_def format_example_65)

text \<open>
  Claim C1, amended: a call of \<^verbatim>\<open>renderFrames\<close> on a playing video draws exactly one
  text, the format \<^verbatim>\<open>YYYY-MM-DD HH:mm:ss\<close> of the date made from the double sum of the start
  time and 1000 times the playback position (the product rounded to a double, then the
  sum, then cut to whole milliseconds); whenever 1000 times the position is a whole
  number of milliseconds, that is exactly the start time plus the position, formatted: at
  position 0 the start time, at position 65 the start time plus 65 seconds; and through
  every run, every text on the canvas is the text of the position of the frame it was
  drawn on.
\<close>

theorem frame_overlay_text:
  "(canvasRef st = Some cv \<and> has_ctx cv \<and> videoRef st = Some vd \<and> playing vd \<longrightarrow>
      (\<exists>cv'. canvasRef (renderFrames v e st) = Some cv'
         \<and> texts_of (ops cv')
             = texts_of (ops cv)
               @ [dayjs_format e (Date_new (double_sum (videoStartTime st) (currentTime vd)))]))
   \<and> (pos * 1000 = of_int n \<and> \<bar>n\<bar> \<le> 2 ^ 53 \<and> \<bar>start + n\<bar> \<le> 8640000000000000 \<longrightarrow>
        overlay_text e start pos = dayjs_format e (Some (start + n)))
   \<and> (\<bar>start\<bar> \<le> 8640000000000000 \<longrightarrow>
        overlay_text e start 0 = dayjs_format e (Some start))
   \<and> (\<bar>start + 65000\<bar> \<le> 8640000000000000 \<longrightarrow>
        overlay_text e start 65 = dayjs_format e (Some (start + 65000)))
   \<and> (canvasRef st = Some cv \<and> frames_ok (overlay_text e (videoStartTime st)) None (ops cv) \<longrightarrow>
        (\<exists>cv'. canvasRef (run v e st evs) = Some cv'
           \<and> frames_ok (overlay_text e (videoStartTime st)) None (ops cv')))"
proof (intro conjI impI)
  assume "canvasRef st = Some cv \<and> has_ctx cv \<and> videoRef st = Some vd \<and> playing vd"
  then show "\<exists>cv'. canvasRef (renderFrames v e st) = Some cv'
         \<and> texts_of (ops cv')
             = texts_of (ops cv)
               @ [dayjs_format e (Date_new (double_sum (videoStartTime st) (currentTime vd)))]"
    using renderFrames_canvas [of st cv vd v e]
    by (simp add: texts_of_append texts_of_watermark overlay_text_def)
next
  assume "pos * 1000 = of_int n \<and> \<bar>n\<bar> \<le> 2 ^ 53 \<and> \<bar>start + n\<bar> \<le> 8640000000000000"
  then show "overlay_text e start pos = dayjs_format e (Some (start + n))"
    by (intro overlay_text_whole_ms) simp_all
next
  assume "\<bar>start\<bar> \<le> 8640000000000000"
  then show "overlay_text e start 0 = dayjs_format e (Some start)"
    using overlay_text_whole_ms [of 0 0 start e] by simp
next
  assume "\<bar>start + 65000\<bar> \<le> 8640000000000000"
  then show "overlay_text e start 65 = dayjs_format e (Some (start + 65000))"
    using overlay_text_whole_ms [of 65 65000 start e] by simp
next
  assume "canvasRef st = Some cv \<and> frames_ok (overlay_text e (videoStartTime st)) None (ops cv)"
  then show "\<exists>cv'. canvasRef (run v e st evs) = Some cv'
           \<and> frames_ok (overlay_text e (videoStartTime st)) None (ops cv')"
    using run_frames_ok [of st cv e v evs] by auto
qed

lemma utc_measure: "measureText utc_env fs t = of_nat (10 * length t)"
  by (simp add: utc_env_def utc_zone_def)

lemma overlay_examples:
  "overlay_text utc_env 1704067200000 0 = ''2024-01-01 00:00:00''"
  "overlay_text utc_env 1704067200000 5 = ''2024-01-01 00:00:05''"
  "overlay_text utc_env 1704067200000 65 = ''2024-01-01 00:01:05''"
  using overlay_text_whole_ms [of 0 0 1704067200000 utc_env]
    overlay_text_whole_ms [of 5 5000 1704067200000 utc_env]
    overlay_text_whole_ms [of 65 65000 1704067200000 utc_env]
  by (simp_all add: format_example_0 format_example_5 format_example_65)

lemma three_frames:
  "canvasRef (run App_tsx utc_env (processVideo App_tsx utc_env loaded)
      [Play_resolved, Advance 5, Frame])
   = Some \<lparr>width = 1280, height = 720, has_ctx = True, font = 43,
       ops = [ClearRect 0 0 1280 720, DrawImage 0 0 0 1280 720,
              FillText (RGBA 255 255 255 (1 / 2)) 43 ''2024-01-01 00:00:00'' (5322 / 5) (3472 / 5),
              ClearRect 0 0 1280 720, DrawImage 5 0 0 1280 720,
              FillText (RGBA 255 255 255 (1 / 2)) 43 ''2024-01-01 00:00:05''
                (5322 / 5) (3472 / 5)]\<rparr>"
  by (simp add: run_def started_App_tsx play_resolved_def renderFrames_def drawWatermark_def
      watermark_ops_def playing_def Let_def overlay_examples utc_measure)

theorem frame_overlay_text_witness:
  "overlay_text utc_env 1704067200000 0 = ''2024-01-01 00:00:00''
   \<and> overlay_text utc_env 1704067200000 65 = ''2024-01-01 00:01:05''
   \<and> (\<exists>cv'. canvasRef (renderFrames App_tsx utc_env (processVideo App_tsx utc_env loaded))
          = Some cv' \<and> texts_of (ops cv') = [''2024-01-01 00:00:00''])
   \<and> (\<exists>cv'. canvasRef (run App_tsx utc_env (processVideo App_tsx utc_env loaded)
          [Play_resolved, Advance 5, Frame]) = Some cv'
        \<and> frames_ok (overlay_text utc_env 1704067200000) None (ops cv')
        \<and> texts_of (ops cv') = [''2024-01-01 00:00:00'', ''2024-01-01 00:00:05''])"
proof -
  let ?st = "processVideo App_tsx utc_env loaded"
  let ?cv = "\<lparr>width = 1280, height = 720, has_ctx = True, font = 43, ops = []\<rparr>"
  let ?vd = "\<lparr>paused = False, ended = False, currentTime = 0, duration = 10,
        muted = True, videoWidth = 1280, videoHeight = 720\<rparr>"
  note t = frame_overlay_text [of ?st ?cv ?vd App_tsx utc_env 65 65000 1704067200000
      "[Play_resolved, Advance 5, Frame]"]
  have st: "canvasRef ?st = Some ?cv" "videoRef ?st = Some ?vd" "videoStartTime ?st = 1704067200000"
    by (simp_all add: started_App_tsx)
  have "\<exists>cv'. canvasRef (renderFrames App_tsx utc_env ?st) = Some cv'
          \<and> texts_of (ops cv') = [dayjs_format utc_env (Date_new (double_sum 1704067200000 0))]"
    using t [THEN conjunct1] st by (simp add: playing_def)
  then have a: "\<exists>cv'. canvasRef (renderFrames App_tsx utc_env ?st) = Some cv'
          \<and> texts_of (ops cv') = [''2024-01-01 00:00:00'']"
    using overlay_examples(1) by (simp add: overlay_text_def)
  have "\<exists>cv'. canvasRef (run App_tsx utc_env ?st [Play_resolved, Advance 5, Frame]) = Some cv'
          \<and> frames_ok (overlay_text utc_env 1704067200000) None (ops cv')"
    using t [THEN conjunct2, THEN conjunct2, THEN conjunct2, THEN conjunct2] st by simp
  then have b: "\<exists>cv'. canvasRef (run App_tsx utc_env ?st [Play_resolved, Advance 5, Frame])
          = Some cv'
        \<and> frames_ok (overlay_text utc_env 1704067200000) None (ops cv')
        \<and> texts_of (ops cv') = [''2024-01-01 00:00:00'', ''2024-01-01 00:00:05'']"
    unfolding three_frames by auto
  have c: "overlay_text utc_env 1704067200000 65 = ''2024-01-01 00:01:05''"
    using t [THEN conjunct2, THEN conjunct1] by (simp add: format_example_65)
  show ?thesis
    using a b c overlay_examples(1) by blast
qed

subsection \<open>Stopping the capture pipeline\<close>

lemma displayed_append: "displayed (tr @ tr') = displayed tr @ displayed tr'"
  by (induction tr rule: displayed.induct) simp_all

lemma recorder_stop_idem: "recorder_stop (recorder_stop r) = recorder_stop r"
  by (simp add: recorder_stop_def)

lemma recorder_stop_inactive: "rstate r = Inactive \<Longrightarrow> recorder_stop r = r"
  by (simp add: recorder_stop_def)

lemma stop_capture_recorder:
  "recorderRef (stop_capture v st) = map_option recorder_stop (recorderRef st)"
  by (cases v; cases "recorderRef st")
    (simp_all add: stop_capture_def emit_def recorder_stop_inactive)

lemma stop_capture_keeps:
  "allChunks (stop_capture v st) = allChunks st
   \<and> error (stop_capture v st) = error st
   \<and> showError (stop_capture v st) = showError st
   \<and> displayed (trace (stop_capture v st)) = displayed (trace st)"
  by (cases v; cases "recorderRef st")
    (simp_all add: stop_capture_def emit_def displayed_append)

lemma delivery_step:
  assumes "is_delivery ev" and "recorderRef s1 = recorderRef s2" and "allChunks s1 = allChunks s2"
  shows "recorderRef (step v e s1 ev) = recorderRef (step v e s2 ev)
         \<and> allChunks (step v e s1 ev) = allChunks (step v e s2 ev)"
  using assms by (cases ev) (auto simp: ondataavailable_def split: option.splits)

lemma delivery_run:
  assumes "list_all is_delivery evs" and "recorderRef s1 = recorderRef s2"
    and "allChunks s1 = allChunks s2"
  shows "allChunks (run v e s1 evs) = allChunks (run v e s2 evs)"
  using assms
proof (induction evs arbitrary: s1 s2)
  case Nil
  then show ?case by (simp add: run_def)
next
  case (Cons ev evs)
  then have "is_delivery ev" and "list_all is_delivery evs" by simp_all
  from delivery_step [OF this(1) Cons.prems(2,3), of v e]
  have "recorderRef (step v e s1 ev) = recorderRef (step v e s2 ev)"
    and "allChunks (step v e s1 ev) = allChunks (step v e s2 ev)" by simp_all
  from Cons.IH [OF \<open>list_all is_delivery evs\<close> this]
  show ?case by (simp add: run_def)
qed

lemma delivery_step_idle:
  assumes "is_delivery ev"
    and "recorderRef st = None
         \<or> (\<exists>r. recorderRef st = Some r \<and> rstate r = Inactive \<and> \<not> flush_queued r)"
  shows "step v e st ev = st"
  using assms by (cases ev) auto

lemma delivery_run_idle:
  assumes "list_all is_delivery evs"
    and "recorderRef st = None
         \<or> (\<exists>r. recorderRef st = Some r \<and> rstate r = Inactive \<and> \<not> flush_queued r)"
  shows "run v e st evs = st"
  using assms
proof (induction evs)
  case Nil
  then show ?case by (simp add: run_def)
next
  case (Cons ev evs)
  then show ?case using delivery_step_idle [of ev st v e] by (simp add: run_def)
qed

text \<open>
  Claim C5: stopping the capture when the recorder is inactive, or when there is none,
  changes neither the recorder nor the chunks and displays no error; a second stop right
  after a first leaves the recorder as the first left it, so the recorder hands over the
  same chunks after two stops as after one; and after a stop of a recorder that was
  inactive with nothing queued, the recorder hands over nothing. In \<^verbatim>\<open>App.tsx\<close> the call
  is made without a look at the state, and it is the recorder's own \<^verbatim>\<open>stop()\<close> that does
  nothing when inactive; the other file checks the state first.
\<close>

theorem stop_capture_idempotent:
  "(recorderRef st = None \<or> (\<exists>r. recorderRef st = Some r \<and> rstate r = Inactive) \<longrightarrow>
      recorderRef (stop_capture v st) = recorderRef st
      \<and> allChunks (stop_capture v st) = allChunks st
      \<and> error (stop_capture v st) = error st
      \<and> showError (stop_capture v st) = showError st
      \<and> displayed (trace (stop_capture v st)) = displayed (trace st))
   \<and> recorderRef (stop_capture v (stop_capture v st)) = recorderRef (stop_capture v st)
   \<and> allChunks (stop_capture v (stop_capture v st)) = allChunks st
   \<and> error (stop_capture v (stop_capture v st)) = error st
   \<and> displayed (trace (stop_capture v (stop_capture v st))) = displayed (trace st)
   \<and> (list_all is_delivery evs \<longrightarrow>
        allChunks (run v e (stop_capture v (stop_capture v st)) evs)
          = allChunks (run v e (stop_capture v st) evs))
   \<and> (list_all is_delivery evs
        \<and> (recorderRef st = None
             \<or> (\<exists>r. recorderRef st = Some r \<and> rstate r = Inactive \<and> \<not> flush_queued r)) \<longrightarrow>
        allChunks (run v e (stop_capture v st) evs) = allChunks st)"
proof -
  have inactive: "recorderRef (stop_capture v st) = recorderRef st"
    if "recorderRef st = None \<or> (\<exists>r. recorderRef st = Some r \<and> rstate r = Inactive)"
    using that by (auto simp: stop_capture_recorder recorder_stop_inactive)
  have rec2: "recorderRef (stop_capture v (stop_capture v st)) = recorderRef (stop_capture v st)"
    by (cases "recorderRef st") (simp_all add: stop_capture_recorder recorder_stop_idem)
  have twice: "allChunks (run v e (stop_capture v (stop_capture v st)) evs)
          = allChunks (run v e (stop_capture v st) evs)"
    if "list_all is_delivery evs"
    using that rec2 by (intro delivery_run) (simp_all add: stop_capture_keeps)
  have idle: "allChunks (run v e (stop_capture v st) evs) = allChunks st"
    if a: "list_all is_delivery evs
        \<and> (recorderRef st = None
             \<or> (\<exists>r. recorderRef st = Some r \<and> rstate r = Inactive \<and> \<not> flush_queued r))"
  proof -
    from a have "recorderRef (stop_capture v st) = recorderRef st"
      by (intro inactive) auto
    with a have "run v e (stop_capture v st) evs = stop_capture v st"
      by (intro delivery_run_idle) auto
    then show ?thesis by (simp add: stop_capture_keeps)
  qed
  show ?thesis
  proof (intro conjI impI)
    show "recorderRef (stop_capture v (stop_capture v st)) = recorderRef (stop_capture v st)"
      by (rule rec2)
  qed (simp_all add: stop_capture_keeps inactive twice idle)
qed


theorem stop_capture_idempotent_witness:
  "allChunks (run App_tsx utc_env
      (stop_capture App_tsx (stop_capture App_tsx
         (mounted\<lparr>recorderRef := Some \<lparr>rstate = Inactive, rmimeType = ''video/mp4'',
                                       flush_queued = False\<rparr>\<rparr>)))
      [Flush [1], Timeslice [2]]) = []
   \<and> recorderRef (stop_capture Part_000
         (mounted\<lparr>recorderRef := Some \<lparr>rstate = Inactive, rmimeType = ''video/mp4'',
                                       flush_queued = False\<rparr>\<rparr>))
       = Some \<lparr>rstate = Inactive, rmimeType = ''video/mp4'', flush_queued = False\<rparr>"
  using stop_capture_idempotent [of
      "mounted\<lparr>recorderRef := Some \<lparr>rstate = Inactive, rmimeType = ''video/mp4'',
                                    flush_queued = False\<rparr>\<rparr>" App_tsx "[Flush [1], Timeslice [2]]"
      utc_env]
    stop_capture_idempotent [of
      "mounted\<lparr>recorderRef := Some \<lparr>rstate = Inactive, rmimeType = ''video/mp4'',
                                    flush_queued = False\<rparr>\<rparr>" Part_000 "[]" utc_env]
  by (simp add: mounted_def)

subsection \<open>Finishing with no data\<close>

lemma finish_timeout_App_tsx:
  "videoURL (finish_timeout App_tsx m st) = Some (Blob_new (allChunks st) (''video/'' @ ext m))
   \<and> displayed (trace (finish_timeout App_tsx m st)) = displayed (trace st)
   \<and> error (finish_timeout App_tsx m st) = error st"
  by (simp add: finish_timeout_def emit_def displayed_append blob_type_def)

lemma finish_timeout_Part_000:
  "(allChunks st = [] \<longrightarrow>
      videoURL (finish_timeout Part_000 m st) = videoURL st
      \<and> error (finish_timeout Part_000 m st) = No_data_collected
      \<and> showError (finish_timeout Part_000 m st)
      \<and> displayed (trace (finish_timeout Part_000 m st)) = displayed (trace st) @ [No_data_collected])
   \<and> (allChunks st \<noteq> [] \<longrightarrow>
      videoURL (finish_timeout Part_000 m st)
        = Some (Blob_new (allChunks st) (blob_type Part_000 m st)))"
  by (simp add: finish_timeout_def emit_def displayError_def displayed_append)

text \<open>
  Claim C4 says that a finalization that finds no chunk fails with the message for no
  data and publishes nothing. The second file does so (the lemma above). \<^verbatim>\<open>App.tsx\<close> does
  not look at the number of chunks: in the run below the source ends, the recorder
  delivers an empty blob, which the handler drops, the timer fires after 1000 ms, and a
  blob of zero bytes is published without any message.
\<close>

theorem empty_capture_published_by_App_tsx:
  "videoURL (run App_tsx utc_env (processVideo App_tsx utc_env loaded)
      [Ended, Flush [], Wait 1000, Grace])
     = Some \<lparr>bytes = [], btype = ''video/mp4''\<rparr>
   \<and> allChunks (run App_tsx utc_env (processVideo App_tsx utc_env loaded)
      [Ended, Flush [], Wait 1000, Grace]) = []
   \<and> displayed (trace (run App_tsx utc_env (processVideo App_tsx utc_env loaded)
      [Ended, Flush [], Wait 1000, Grace])) = []"
  by (simp add: run_def started_App_tsx playing_def handler_defs recorder_stop_def grace_ms_def
      Blob_new_def blob_type_def)


subsection \<open>The order of a finalization\<close>

lemma final_steps_append [simp]: "final_steps (a @ b) = final_steps a @ final_steps b"
  by (simp add: final_steps_def)

lemma final_steps_simps [simp]:
  "final_steps [] = []"
  "final_steps ((t, Pause_video) # tr) = (t, Pause_video) # final_steps tr"
  "final_steps ((t, Stop_recorder) # tr) = (t, Stop_recorder) # final_steps tr"
  "final_steps ((t, Arm_grace n) # tr) = (t, Arm_grace n) # final_steps tr"
  "final_steps ((t, Concat k) # tr) = (t, Concat k) # final_steps tr"
  "final_steps ((t, Publish who x) # tr) = final_steps tr"
  "final_steps ((t, Display m) # tr) = final_steps tr"
  by (simp_all add: final_steps_def)

lemma renderFrames_final [simp]:
  "videoRef (renderFrames v e st) = videoRef st"
  "videoCompleted (renderFrames v e st) = videoCompleted st"
  "recorderRef (renderFrames v e st) = recorderRef st"
  "onended (renderFrames v e st) = onended st"
  "graceTimer (renderFrames v e st) = graceTimer st"
  "trace (renderFrames v e st) = trace st"
  "clock (renderFrames v e st) = clock st"
  by (simp_all add: renderFrames_def drawWatermark_def Let_def split: option.splits)

lemma step_keeps_final:
  assumes "ev \<noteq> Ended" and "ev \<noteq> Grace"
  shows "videoCompleted (step v e st ev) = videoCompleted st"
    and "final_steps (trace (step v e st ev)) = final_steps (trace st)"
    and "graceTimer (step v e st ev) = graceTimer st"
    and "onended (step v e st ev) = onended st"
    and "map_option rstate (recorderRef (step v e st ev)) = map_option rstate (recorderRef st)"
  using assms by (cases ev; simp add: handler_defs Let_def split: option.splits)+

lemma step_keeps_video:
  assumes "ev \<noteq> Ended" and "videoRef st = Some vd"
  shows "\<exists>vd'. videoRef (step v e st ev) = Some vd' \<and> (playing vd' \<longrightarrow> playing vd)"
  using assms
  by (cases ev; cases v)
    (simp_all add: handler_defs playing_def Let_def split: option.splits)

lemma finishProcessing_final:
  assumes "videoRef st = Some vd" and "recorderRef st = Some r" and "rstate r = Recording"
  shows "videoRef (finishProcessing v m st) = Some (vd\<lparr>paused := True\<rparr>)"
    and "videoCompleted (finishProcessing v m st) = videoCompleted st"
    and "graceTimer (finishProcessing v m st) = Some (clock st + grace_ms, m)"
    and "final_steps (trace (finishProcessing v m st))
         = final_steps (trace st)
           @ map (Pair (clock st)) (first_two v @ [Arm_grace grace_ms])"
  using assms
  by (cases v; simp add: handler_defs recorder_stop_def first_two_def Let_def)+

lemma finish_timeout_final:
  "videoRef (finish_timeout v m st) = videoRef st"
  "videoCompleted (finish_timeout v m st) = videoCompleted st"
  "graceTimer (finish_timeout v m st) = graceTimer st"
  "final_steps (trace (finish_timeout v m st))
   = final_steps (trace st)
     @ (if v = Part_000 \<and> allChunks st = [] then []
        else [(clock st, Concat (length (allChunks st)))])"
  by (simp_all add: handler_defs)

lemma inv_final_started: "started st \<Longrightarrow> inv_final v st"
  by (auto simp: started_def inv_final_def split: option.splits)

lemma final_order_armed:
  "final_order v (map (Pair c) (first_two v @ [Arm_grace grace_ms]))"
  by (cases v) (simp_all add: final_order_def first_two_def)

lemma final_order_concat:
  assumes "final_order v fs" and "length fs = 3" and "fst (fs ! 2) + grace_ms \<le> c"
  shows "final_order v (fs @ [(c, Concat k)])"
proof -
  from assms(2) obtain a b d where fs: "fs = [a, b, d]"
    by (cases fs; cases "tl fs"; cases "tl (tl fs)"; cases "tl (tl (tl fs))") auto
  show ?thesis using assms by (simp add: fs final_order_def)
qed

lemma inv_final_Ended:
  assumes "inv_final v st"
  shows "inv_final v (step v e st Ended)"
proof -
  from assms obtain vd where vd: "videoRef st = Some vd"
    by (auto simp: inv_final_def split: option.splits)
  show ?thesis
  proof (cases "playing vd")
    case False
    then show ?thesis using assms vd by simp
  next
    case True
    with assms vd have nc: "\<not> videoCompleted st"
      by (auto simp: inv_final_def)
    with assms vd obtain r m where r: "recorderRef st = Some r" "rstate r = Recording"
      and m: "onended st = Some m" and fs: "final_steps (trace st) = []"
      by (auto simp: inv_final_def split: option.splits)
    define vd1 where "vd1 = vd\<lparr>currentTime := duration vd, ended := True, paused := True\<rparr>"
    define st1 where "st1 = st\<lparr>videoRef := Some vd1, videoCompleted := True\<rparr>"
    have st1: "videoRef st1 = Some vd1" "recorderRef st1 = Some r" "videoCompleted st1"
      "trace st1 = trace st" "clock st1 = clock st"
      by (simp_all add: st1_def r)
    have step: "step v e st Ended = finishProcessing v m st1"
      using vd True m by (simp add: video_onended_def st1_def vd1_def)
    have "\<not> playing (vd1\<lparr>paused := True\<rparr>)"
      by (simp add: playing_def)
    then show ?thesis
      unfolding step inv_final_def
      using finishProcessing_final [OF st1(1,2) r(2), of v m] st1 fs final_order_armed [of v "clock st"]
      by (cases v) (simp_all add: first_two_def)
  qed
qed

lemma inv_final_Grace:
  assumes "inv_final v st"
  shows "inv_final v (step v e st Grace)"
proof (cases "graceTimer st")
  case None
  then show ?thesis using assms by simp
next
  case (Some p)
  obtain due m where p: "p = (due, m)" by (cases p)
  show ?thesis
  proof (cases "due \<le> clock st")
    case False
    then show ?thesis using assms Some p by simp
  next
    case True
    from assms obtain vd where vd: "videoRef st = Some vd"
      by (auto simp: inv_final_def split: option.splits)
    from assms vd Some have c: "videoCompleted st"
      by (auto simp: inv_final_def split: if_splits)
    with assms vd Some p have np: "\<not> playing vd" and ne: "final_steps (trace st) \<noteq> []"
      and fo: "final_order v (final_steps (trace st))"
      and len: "length (final_steps (trace st)) = 3"
      and due: "due = fst (final_steps (trace st) ! 2) + grace_ms"
      by (auto simp: inv_final_def)
    have step: "step v e st Grace = finish_timeout v m (st\<lparr>graceTimer := None\<rparr>)"
      using Some p True by simp
    have "final_order v (final_steps (trace st) @ [(clock st, Concat k)])" for k
      using final_order_concat [OF fo len, of "clock st" k] due True by simp
    then show ?thesis
      unfolding step inv_final_def
      using vd c np ne fo by (auto simp: finish_timeout_final)
  qed
qed

lemma inv_final_step:
  assumes "inv_final v st"
  shows "inv_final v (step v e st ev)"
proof (cases "ev = Ended \<or> ev = Grace")
  case True
  then show ?thesis using assms inv_final_Ended inv_final_Grace by auto
next
  case False
  then have n: "ev \<noteq> Ended" "ev \<noteq> Grace" by simp_all
  from assms obtain vd where vd: "videoRef st = Some vd"
    by (auto simp: inv_final_def split: option.splits)
  from step_keeps_video [OF n(1) vd, of v e]
  obtain vd' where vd': "videoRef (step v e st ev) = Some vd'" "playing vd' \<longrightarrow> playing vd"
    by auto
  have rec: "(case recorderRef (step v e st ev) of Some r \<Rightarrow> rstate r = Recording | None \<Rightarrow> False)
             = (case recorderRef st of Some r \<Rightarrow> rstate r = Recording | None \<Rightarrow> False)"
    using step_keeps_final(5) [OF n, of v e st]
    by (cases "recorderRef (step v e st ev)"; cases "recorderRef st") simp_all
  show ?thesis
    using assms vd vd' rec
    unfolding inv_final_def
    by (simp add: step_keeps_final [OF n] split: if_splits cong: option.case_cong)
qed

lemma inv_final_run: "inv_final v st \<Longrightarrow> inv_final v (run v e st evs)"
proof (induction evs arbitrary: st)
  case Nil
  then show ?case by (simp add: run_def)
next
  case (Cons ev evs)
  from Cons.IH [OF inv_final_step [OF Cons.prems, of e ev]] show ?case
    by (simp add: run_def)
qed

lemma inv_final_order: "inv_final v st \<Longrightarrow> final_order v (final_steps (trace st))"
  by (auto simp: inv_final_def final_order_def split: option.splits if_splits)


lemma final_order_nonempty:
  "fs \<noteq> [] \<Longrightarrow>
   final_order v fs
   = (map snd (take 3 fs) = first_two v @ [Arm_grace grace_ms]
      \<and> (case drop 3 fs of [] \<Rightarrow> True
           | [(t, Concat k)] \<Rightarrow> fst (fs ! 2) + grace_ms \<le> t | _ \<Rightarrow> False))"
  by (cases fs) (simp_all add: final_order_def cong: list.case_cong)

lemma final_order_cases:
  assumes "final_order v fs"
  shows "fs = []
         \<or> (\<exists>t1 t2 t3. fs = [(t1, first_two v ! 0), (t2, first_two v ! 1), (t3, Arm_grace 1000)])
         \<or> (\<exists>t1 t2 t3 t4 k.
               fs = [(t1, first_two v ! 0), (t2, first_two v ! 1), (t3, Arm_grace 1000),
                     (t4, Concat k)]
               \<and> t3 + 1000 \<le> t4)"
proof (cases fs)
  case Nil
  then show ?thesis by simp
next
  case (Cons a fs1)
  then have "fs \<noteq> []" by simp
  with assms have m: "map snd (take 3 fs) = first_two v @ [Arm_grace grace_ms]"
    and d: "(case drop 3 fs of [] \<Rightarrow> True
             | [(t, Concat k)] \<Rightarrow> fst (fs ! 2) + grace_ms \<le> t | _ \<Rightarrow> False)"
    by (simp_all add: final_order_nonempty)
  have "length (first_two v) = 2" by (cases v) (simp_all add: first_two_def)
  with m have "length (take 3 fs) = 3"
    by (metis length_map length_append length_Cons list.size(3) One_nat_def
        numeral_3_eq_3 Suc_1 add_Suc_right add_0_right)
  then obtain x y z rest where fs: "fs = x # y # z # rest"
    by (cases fs; cases "tl fs"; cases "tl (tl fs)") auto
  obtain t1 a1 t2 a2 t3 a3 where xyz: "x = (t1, a1)" "y = (t2, a2)" "z = (t3, a3)"
    by (cases x; cases y; cases z) auto
  from m have a: "a1 = first_two v ! 0" "a2 = first_two v ! 1" "a3 = Arm_grace 1000"
    by (cases v; simp add: fs xyz first_two_def grace_ms_def)+
  show ?thesis
  proof (cases rest)
    case Nil
    then show ?thesis by (simp add: fs xyz a)
  next
    case (Cons w rest')
    with d obtain t4 k where "w = (t4, Concat k)" "rest' = []" "t3 + 1000 \<le> t4"
      by (auto simp: fs xyz grace_ms_def split: list.splits action.splits prod.splits)
    then show ?thesis by (simp add: fs xyz a Cons)
  qed
qed

text \<open>
  Claim C9 says that every finalization pauses the source first and stops the capture
  second. \<^verbatim>\<open>App.tsx\<close> does; the second file stops the recorder first and pauses the source
  after it, as the steps of its run show when the source ends.
\<close>

theorem stop_before_pause_counterexample:
  "final_steps (trace (run Part_000 utc_env (processVideo Part_000 utc_env loaded)
      [Play_resolved, Ended]))
   = [(0, Stop_recorder), (0, Pause_video), (0, Arm_grace 1000)]"
  by (simp add: run_def started_Part_000 play_resolved_def renderFrames_def drawWatermark_def
      playing_def Let_def handler_defs recorder_stop_def grace_ms_def)

text \<open>
  Claim C9, amended: in every run, the steps of the finalization that have been taken
  are, in this order: the pause of the source and the stop of the capture (the pause
  first in \<^verbatim>\<open>App.tsx\<close>, the stop first in the second file), then the setting of the timer
  of 1000 ms, and only then, 1000 ms or more after the timer was set, the concatenation
  of the chunks.
\<close>

theorem finalization_order:
  assumes "started st"
  shows "final_order v (final_steps (trace (run v e st evs)))
         \<and> first_two App_tsx = [Pause_video, Stop_recorder]
         \<and> first_two Part_000 = [Stop_recorder, Pause_video]
         \<and> (final_steps (trace (run v e st evs)) = []
             \<or> (\<exists>t1 t2 t3. final_steps (trace (run v e st evs))
                   = [(t1, first_two v ! 0), (t2, first_two v ! 1), (t3, Arm_grace 1000)])
             \<or> (\<exists>t1 t2 t3 t4 k. final_steps (trace (run v e st evs))
                   = [(t1, first_two v ! 0), (t2, first_two v ! 1), (t3, Arm_grace 1000),
                      (t4, Concat k)]
                   \<and> t3 + 1000 \<le> t4))"
proof -
  have "final_order v (final_steps (trace (run v e st evs)))"
    using assms by (intro inv_final_order inv_final_run inv_final_started)
  then show ?thesis
    using final_order_cases [of v "final_steps (trace (run v e st evs))"]
    by (simp add: first_two_def)
qed

theorem finalization_order_witness:
  "started (processVideo App_tsx utc_env loaded)
   \<and> final_steps (trace (run App_tsx utc_env (processVideo App_tsx utc_env loaded)
        [Play_resolved, Ended, Flush [1, 2], Wait 1000, Grace]))
     = [(0, Pause_video), (0, Stop_recorder), (0, Arm_grace 1000), (1000, Concat 1)]
   \<and> final_order App_tsx
        [(0, Pause_video), (0, Stop_recorder), (0, Arm_grace 1000), (1000, Concat 1)]"
proof -
  have s: "started (processVideo App_tsx utc_env loaded)"
    by (simp add: started_App_tsx started_def playing_def)
  have r: "final_steps (trace (run App_tsx utc_env (processVideo App_tsx utc_env loaded)
        [Play_resolved, Ended, Flush [1, 2], Wait 1000, Grace]))
     = [(0, Pause_video), (0, Stop_recorder), (0, Arm_grace 1000), (1000, Concat 1)]"
    by (simp add: run_def started_App_tsx play_resolved_def renderFrames_def drawWatermark_def
        playing_def Let_def handler_defs recorder_stop_def grace_ms_def)
  from finalization_order [OF s, of App_tsx utc_env
      "[Play_resolved, Ended, Flush [1, 2], Wait 1000, Grace]"]
  show ?thesis
    using s r by simp
qed

subsection \<open>The published progress of a run\<close>

lemma published_append [simp]: "published (a @ b) = published a @ published b"
  by (induction a rule: published.induct) simp_all

lemma renderFrames_progress [simp]:
  "videoRef (renderFrames v e st) = videoRef st"
  "videoCompleted (renderFrames v e st) = videoCompleted st"
  "onended (renderFrames v e st) = onended st"
  "updateInterval (renderFrames v e st) = updateInterval st"
  "play_pending (renderFrames v e st) = play_pending st"
  "trace (renderFrames v e st) = trace st"
  by (simp_all add: renderFrames_def drawWatermark_def Let_def split: option.splits)





































end
